theory Spec2Isabelle
  imports Complex_Main "HOL-Library.Word" "HOL-Library.Sublist"
begin

section \<open>Constants of config.h\<close>

definition UPLOAD_MAX_ATTEMPTS :: int where "UPLOAD_MAX_ATTEMPTS = 3"
definition UPLOAD_BACKOFF_SEC_1 :: nat where "UPLOAD_BACKOFF_SEC_1 = 60"
definition UPLOAD_BACKOFF_SEC_2 :: nat where "UPLOAD_BACKOFF_SEC_2 = 300"
definition UPLOAD_BACKOFF_SEC_3 :: nat where "UPLOAD_BACKOFF_SEC_3 = 1800"
definition UPLOAD_BATCH_SIZE :: nat where "UPLOAD_BATCH_SIZE = 5"
definition SD_MIN_FREE_PERCENT :: "8 word" where "SD_MIN_FREE_PERCENT = 15"
definition SD_EMERGENCY_FREE_PERCENT :: "8 word" where "SD_EMERGENCY_FREE_PERCENT = 5"

section \<open>Data\<close>

text \<open>
  \<^verbatim>\<open>time_t\<close> is a signed integer; the epochs of this firmware are far from its bounds, so
  it is an \<open>int\<close>. \<^verbatim>\<open>uint32_t\<close> sequence numbers are 32-bit words, \<^verbatim>\<open>int\<close> attempt
  counters are \<open>int\<close> (the code adds 1 only to counters below \<^verbatim>\<open>UPLOAD_MAX_ATTEMPTS\<close>).
\<close>

type_synonym time_t = int

record PendingItem =
  manifest_path :: string
  filepath :: string
  item_type :: string
  content_type :: string
  seq :: "32 word"
  captured_epoch :: time_t
  upload_attempts :: int
  last_attempt_epoch :: time_t

text \<open>The value of \<^verbatim>\<open>PendingItem item;\<close>: empty strings and the member initialisers.\<close>

definition PendingItem_init :: PendingItem where
  "PendingItem_init =
     \<lparr>manifest_path = [], filepath = [], item_type = [], content_type = [], seq = 0,
      captured_epoch = 0, upload_attempts = 0, last_attempt_epoch = 0\<rparr>"

subsection \<open>The card\<close>

text \<open>
  The queue operations see a manifest file through \<^verbatim>\<open>load_manifest\<close> only, so a file of
  the directory \<^verbatim>\<open>/manifests\<close> is held here as the document that \<^verbatim>\<open>deserializeJson\<close>
  yields for it, each member already read the way \<^verbatim>\<open>load_manifest\<close> reads it
  (\<^verbatim>\<open>doc["k"] | ""\<close>, \<^verbatim>\<open>doc["k"] | 0\<close>: an absent member is its default). A file that does
  not parse has no document. The text of the files, and that the document read back is the
  one written, is the subject of the section on manifest files as text below.

  \<open>manifests\<close> lists the directory in the order of \<^verbatim>\<open>openNextFile\<close>; a missing directory
  is the empty listing (both make the scans return \<^verbatim>\<open>false\<close>). \<open>files\<close> are the paths of
  the other files on the card, the artifacts.
\<close>

record manifest_doc =
  doc_filepath :: string
  doc_seq :: "32 word"
  doc_captured_at_epoch :: time_t
  doc_status :: string
  doc_item_type :: string
  doc_content_type :: string
  doc_upload_attempts :: int
  doc_last_attempt_epoch :: time_t

record dirent =
  d_name :: string
  d_isDirectory :: bool
  d_doc :: "manifest_doc option"

record sdcard =
  manifests :: "dirent list"
  files :: "string list"

definition d_path :: "dirent \<Rightarrow> string" where
  "d_path e = ''/manifests/'' @ d_name e"

definition SD_open :: "sdcard \<Rightarrow> string \<Rightarrow> dirent option" where
  "SD_open sd path = find (\<lambda>e. d_path e = path) (manifests sd)"

definition SD_exists :: "sdcard \<Rightarrow> string \<Rightarrow> bool" where
  "SD_exists sd path \<longleftrightarrow> path \<in> set (files sd) \<or> path \<in> d_path ` set (manifests sd)"

definition SD_remove :: "string \<Rightarrow> sdcard \<Rightarrow> sdcard" where
  "SD_remove path sd =
     sd\<lparr>manifests := filter (\<lambda>e. d_path e \<noteq> path) (manifests sd),
        files := filter (\<lambda>p. p \<noteq> path) (files sd)\<rparr>"

definition endsWith :: "string \<Rightarrow> string \<Rightarrow> bool" where
  "endsWith s suf \<longleftrightarrow> suffix suf s"

subsection \<open>Decimal text of an unsigned number: \<^verbatim>\<open>String(n)\<close>\<close>

definition digit_char :: "nat \<Rightarrow> char" where
  "digit_char d = ''0123456789'' ! d"

function String_of_nat :: "nat \<Rightarrow> string" where
  "String_of_nat n =
     (if n < 10 then [digit_char n] else String_of_nat (n div 10) @ [digit_char (n mod 10)])"
  by pat_completeness auto
termination
  by (relation "measure (\<lambda>n. n)") auto

declare String_of_nat.simps [simp del]

definition manifest_name :: "32 word \<Rightarrow> string" where
  "manifest_name q = String_of_nat (unat q) @ ''.json''"

subsection \<open>The globals of main.cpp\<close>

text \<open>
  One record holds the global variables the modelled functions read or write, the
  persistent counter \<^verbatim>\<open>seq\<close> of \<^verbatim>\<open>Preferences\<close> (\<open>prefs_seq\<close>) and the card.
  \<^verbatim>\<open>unsigned long\<close> millisecond stamps are 32-bit words; sample counts are far below the
  range of \<^verbatim>\<open>size_t\<close> and are \<open>nat\<close>; \<^verbatim>\<open>float\<close> levels are real numbers.
  \<open>audio_file\<close> says whether the handle \<^verbatim>\<open>audio_file\<close> is open.
\<close>

record fw =
  sd_ok :: bool
  camera_ok :: bool
  ntp_synced :: bool
  wifi_ok :: bool
  capture_paused :: bool
  last_capture :: "32 word"
  last_upload :: "32 word"
  last_wifi_attempt :: "32 word"
  last_ntp_attempt :: "32 word"
  last_retention_check :: "32 word"
  last_telemetry :: "32 word"
  audio_ok :: bool
  audio_recording :: bool
  audio_file :: bool
  audio_filepath :: string
  audio_start_epoch :: time_t
  audio_seq :: "32 word"
  audio_samples_written :: nat
  noise_rms :: real
  vad_over_count :: int
  vad_under_count :: int
  audio_force_active :: bool
  audio_force_stop_samples :: nat
  audio_photo_clip_pending :: bool
  audio_photo_clip_epoch :: time_t
  audio_heartbeat_pending :: bool
  last_audio_heartbeat :: "32 word"
  preroll_index :: nat
  preroll_filled :: bool
  prefs_seq :: "32 word"
  sd :: sdcard

section \<open>Manifests\<close>

text \<open>
  \<^verbatim>\<open>write_manifest_atomic\<close>: refused when the card is not mounted; otherwise the file
  \<^verbatim>\<open>/manifests/<seq>.json\<close> is replaced (the final file removed if present, the temporary
  file renamed to it) by one holding the eight values. Operations on a mounted card are
  taken to succeed, so the branches for a failed \<^verbatim>\<open>open\<close>, an empty \<^verbatim>\<open>print\<close> and a failed
  \<^verbatim>\<open>rename\<close> are not taken; the temporary file does not outlive the call.
\<close>

definition write_manifest_atomic ::
  "32 word \<Rightarrow> string \<Rightarrow> time_t \<Rightarrow> string \<Rightarrow> string \<Rightarrow> string \<Rightarrow> int \<Rightarrow> time_t \<Rightarrow> fw \<Rightarrow> bool \<times> fw"
where
  "write_manifest_atomic sq fp cap st ity cty attempts last_attempt s =
     (if \<not> sd_ok s then (False, s)
      else
        let final_name = manifest_name sq;
            doc = \<lparr>doc_filepath = fp, doc_seq = sq, doc_captured_at_epoch = cap,
                   doc_status = st, doc_item_type = ity, doc_content_type = cty,
                   doc_upload_attempts = attempts, doc_last_attempt_epoch = last_attempt\<rparr>;
            f = \<lparr>d_name = final_name, d_isDirectory = False, d_doc = Some doc\<rparr>
        in (True,
            s\<lparr>sd := (sd s)\<lparr>manifests :=
                 filter (\<lambda>e. d_name e \<noteq> final_name) (manifests (sd s)) @ [f]\<rparr>\<rparr>))"

text \<open>
  \<^verbatim>\<open>load_manifest\<close> returns the item and the status string (\<^verbatim>\<open>status_out\<close>), or nothing
  where the source returns \<^verbatim>\<open>false\<close>: no such file, or a file that does not parse (a
  directory among them).
\<close>

definition load_manifest :: "sdcard \<Rightarrow> string \<Rightarrow> (PendingItem \<times> string) option" where
  "load_manifest disk mpath =
     (case SD_open disk mpath of
        None \<Rightarrow> None
      | Some file \<Rightarrow>
          (case (if d_isDirectory file then None else d_doc file) of
             None \<Rightarrow> None
           | Some doc \<Rightarrow>
               let ity = (if doc_item_type doc = []
                          then (if endsWith (doc_filepath doc) ''.wav'' then ''audio'' else ''photo'')
                          else doc_item_type doc);
                   cty = (if doc_content_type doc = []
                          then (if ity = ''audio'' then ''audio/wav'' else ''image/jpeg'')
                          else doc_content_type doc)
               in Some (\<lparr>manifest_path = mpath, filepath = doc_filepath doc, item_type = ity,
                         content_type = cty, seq = doc_seq doc,
                         captured_epoch = doc_captured_at_epoch doc,
                         upload_attempts = doc_upload_attempts doc,
                         last_attempt_epoch = doc_last_attempt_epoch doc\<rparr>,
                        doc_status doc)))"

section \<open>Selection of the oldest manifest\<close>

definition backoff_seconds :: "int \<Rightarrow> nat" where
  "backoff_seconds attempts =
     (if attempts \<le> 0 then 0
      else if attempts = 1 then UPLOAD_BACKOFF_SEC_1
      else if attempts = 2 then UPLOAD_BACKOFF_SEC_2
      else UPLOAD_BACKOFF_SEC_3)"

text \<open>
  The loop variables of both scans: \<^verbatim>\<open>out\<close>, \<^verbatim>\<open>found\<close>, \<^verbatim>\<open>best_epoch\<close>, \<^verbatim>\<open>best_seq\<close>.
  \<open>better\<close> is the chain of tests that sets \<^verbatim>\<open>better\<close>, \<open>take_item\<close> the body of
  \<^verbatim>\<open>if (better)\<close>.
\<close>

record scan =
  out :: PendingItem
  found :: bool
  best_epoch :: time_t
  best_seq :: "32 word"

definition scan_init :: "PendingItem \<Rightarrow> scan" where
  "scan_init item = \<lparr>out = item, found = False, best_epoch = 0, best_seq = 0\<rparr>"

definition better :: "scan \<Rightarrow> PendingItem \<Rightarrow> bool" where
  "better sc item =
     (if \<not> found sc then True
      else if captured_epoch item > 0 \<and> best_epoch sc > 0 then captured_epoch item < best_epoch sc
      else if captured_epoch item > 0 \<and> best_epoch sc = 0 then True
      else if captured_epoch item = 0 \<and> best_epoch sc = 0 then seq item < best_seq sc
      else False)"

definition take_item :: "PendingItem \<Rightarrow> scan \<Rightarrow> scan" where
  "take_item item sc =
     (if better sc item
      then \<lparr>out = item, found = True, best_epoch = captured_epoch item, best_seq = seq item\<rparr>
      else sc)"

text \<open>
  One turn of the \<^verbatim>\<open>while\<close> loop of \<^verbatim>\<open>find_oldest_pending\<close> for the directory entry
  \<open>f\<close>. The loop walks the listing as it was when the directory was opened; the manifest
  is loaded from the card as it is now, which differs by the manifests this scan has
  already rewritten as FAILED.
\<close>

definition pending_step :: "time_t \<Rightarrow> dirent \<Rightarrow> fw \<times> scan \<Rightarrow> fw \<times> scan" where
  "pending_step now f = (\<lambda>(s, sc).
     if d_isDirectory f then (s, sc)
     else if \<not> endsWith (d_name f) ''.json'' then (s, sc)
     else
       (case load_manifest (sd s) (''/manifests/'' @ d_name f) of
          None \<Rightarrow> (s, sc)
        | Some (item, status) \<Rightarrow>
            if status \<noteq> ''PENDING'' then (s, sc)
            else if upload_attempts item \<ge> UPLOAD_MAX_ATTEMPTS then
              (snd (write_manifest_atomic (seq item) (filepath item) (captured_epoch item)
                      ''FAILED'' (item_type item) (content_type item)
                      (upload_attempts item) (last_attempt_epoch item) s), sc)
            else
              let backoff = backoff_seconds (upload_attempts item)
              in if backoff > 0 \<and> now - last_attempt_epoch item < int backoff then (s, sc)
                 else (s, take_item item sc)))"

definition find_oldest_pending :: "time_t \<Rightarrow> PendingItem \<Rightarrow> fw \<Rightarrow> (bool \<times> PendingItem) \<times> fw" where
  "find_oldest_pending now out0 s =
     (if \<not> sd_ok s then ((False, out0), s)
      else
        let (s', sc) = fold (pending_step now) (manifests (sd s)) (s, scan_init out0)
        in ((found sc, out sc), s'))"

definition uploaded_step :: "sdcard \<Rightarrow> dirent \<Rightarrow> scan \<Rightarrow> scan" where
  "uploaded_step disk f sc =
     (if d_isDirectory f then sc
      else if \<not> endsWith (d_name f) ''.json'' then sc
      else
        (case load_manifest disk (''/manifests/'' @ d_name f) of
           None \<Rightarrow> sc
         | Some (item, status) \<Rightarrow>
             if status \<noteq> ''UPLOADED'' then sc else take_item item sc))"

definition find_oldest_uploaded :: "PendingItem \<Rightarrow> fw \<Rightarrow> bool \<times> PendingItem" where
  "find_oldest_uploaded out0 s =
     (if \<not> sd_ok s then (False, out0)
      else
        let sc = fold (uploaded_step (sd s)) (manifests (sd s)) (scan_init out0)
        in (found sc, out sc))"

section \<open>Upload engine\<close>

text \<open>
  What one call of \<^verbatim>\<open>upload_one_pending\<close> reads from outside the firmware: the two clock
  readings (\<^verbatim>\<open>now_epoch()\<close> in \<^verbatim>\<open>find_oldest_pending\<close> and in \<^verbatim>\<open>upload_one_pending\<close>), the
  configured \<^verbatim>\<open>DEVICE_TOKEN\<close>, and how the three network exchanges end: the upload-url
  request (HTTP 200 with a JSON body naming host, path and object key), the streamed
  \<^verbatim>\<open>PUT\<close> (connected, body written, status 2xx) and the ingest request (HTTP 200).
\<close>

record upload_env =
  u_now :: time_t
  u_attempt_epoch :: time_t
  u_device_token :: string
  u_target_ok :: bool
  u_stream_ok :: bool
  u_ingest_ok :: bool

definition request_upload_target :: "upload_env \<Rightarrow> PendingItem \<Rightarrow> bool" where
  "request_upload_target e item =
     (if length (u_device_token e) = 0 then False else u_target_ok e)"

definition stream_upload :: "upload_env \<Rightarrow> PendingItem \<Rightarrow> fw \<Rightarrow> bool" where
  "stream_upload e item s =
     (if \<not> SD_exists (sd s) (filepath item) then False else u_stream_ok e)"

definition notify_ingest :: "upload_env \<Rightarrow> PendingItem \<Rightarrow> bool" where
  "notify_ingest e item = u_ingest_ok e"

definition update_manifest_status :: "PendingItem \<Rightarrow> string \<Rightarrow> int \<Rightarrow> time_t \<Rightarrow> fw \<Rightarrow> fw" where
  "update_manifest_status item status attempts last_attempt s =
     snd (write_manifest_atomic (seq item) (filepath item) (captured_epoch item) status
            (item_type item) (content_type item) attempts last_attempt s)"

definition upload_one_pending :: "upload_env \<Rightarrow> fw \<Rightarrow> bool \<times> fw" where
  "upload_one_pending e s =
     (if \<not> sd_ok s \<or> \<not> wifi_ok s then (False, s)
      else
        (case find_oldest_pending (u_now e) PendingItem_init s of
           ((False, _), s1) \<Rightarrow> (False, s1)
         | ((True, item), s1) \<Rightarrow>
             let attempt_epoch = u_attempt_epoch e;
                 s2 = update_manifest_status item ''PENDING'' (upload_attempts item + 1) attempt_epoch s1
             in if \<not> request_upload_target e item then
                  (if upload_attempts item + 1 \<ge> UPLOAD_MAX_ATTEMPTS
                   then (False, update_manifest_status item ''FAILED'' (upload_attempts item + 1) attempt_epoch s2)
                   else (False, update_manifest_status item ''PENDING'' (upload_attempts item + 1) attempt_epoch s2))
                else if \<not> stream_upload e item s2 then
                  (if upload_attempts item + 1 \<ge> UPLOAD_MAX_ATTEMPTS
                   then (False, update_manifest_status item ''FAILED'' (upload_attempts item + 1) attempt_epoch s2)
                   else (False, update_manifest_status item ''PENDING'' (upload_attempts item + 1) attempt_epoch s2))
                else if \<not> notify_ingest e item then
                  (if upload_attempts item + 1 \<ge> UPLOAD_MAX_ATTEMPTS
                   then (False, update_manifest_status item ''FAILED'' (upload_attempts item + 1) attempt_epoch s2)
                   else (False, update_manifest_status item ''PENDING'' (upload_attempts item + 1) attempt_epoch s2))
                else (True, update_manifest_status item ''UPLOADED'' (upload_attempts item + 1) attempt_epoch s2)))"

text \<open>
  \<^verbatim>\<open>upload_batch\<close>: at most \<^verbatim>\<open>UPLOAD_BATCH_SIZE\<close> calls, stopped by the first that returns
  \<^verbatim>\<open>false\<close>. \<open>env i\<close> is what call number \<open>i\<close> reads from outside.
\<close>

fun upload_batch_loop :: "nat \<Rightarrow> nat \<Rightarrow> (nat \<Rightarrow> upload_env) \<Rightarrow> fw \<Rightarrow> fw" where
  "upload_batch_loop 0 i env s = s"
| "upload_batch_loop (Suc n) i env s =
     (case upload_one_pending (env i) s of
        (False, s') \<Rightarrow> s'
      | (True, s') \<Rightarrow> upload_batch_loop n (Suc i) env s')"

definition upload_batch :: "(nat \<Rightarrow> upload_env) \<Rightarrow> fw \<Rightarrow> fw" where
  "upload_batch env s = upload_batch_loop UPLOAD_BATCH_SIZE 0 env s"

section \<open>Retention: free space on the card\<close>

text \<open>
  \<^verbatim>\<open>free_percent\<close> (main.cpp) reads the card's two 64-bit counters, \<^verbatim>\<open>SD_MMC.totalBytes()\<close>
  and \<^verbatim>\<open>SD_MMC.usedBytes()\<close>, and returns a \<^verbatim>\<open>uint8_t\<close>. The counters are the function's
  inputs here. All arithmetic is the source's unsigned 64-bit arithmetic; the result is
  cast to 8 bits.
\<close>

definition free_percent :: "64 word \<Rightarrow> 64 word \<Rightarrow> 8 word" where
  "free_percent totalBytes usedBytes =
     (if totalBytes = 0 then 0
      else let free_bytes = totalBytes - usedBytes
           in ucast ((free_bytes * 100) div totalBytes))"


text \<open>
  The body of the loop of \<^verbatim>\<open>enforce_retention\<close> after an item was found: the artifact is
  removed if it exists, then the manifest if it exists.
\<close>

definition remove_item :: "PendingItem \<Rightarrow> fw \<Rightarrow> fw" where
  "remove_item item s =
     (let s1 = (if SD_exists (sd s) (filepath item)
                then s\<lparr>sd := SD_remove (filepath item) (sd s)\<rparr> else s);
          s2 = (if SD_exists (sd s1) (manifest_path item)
                then s1\<lparr>sd := SD_remove (manifest_path item) (sd s1)\<rparr> else s1)
      in s2)"

text \<open>
  The loop ends because every turn takes the manifest it found out of the directory: the
  item found is the manifest of a listed file, and after \<open>remove_item\<close> no file of that
  path is left.
\<close>

lemma load_manifest_path:
  "load_manifest disk p = Some (item, st) \<Longrightarrow> manifest_path item = p"
  by (auto simp: load_manifest_def Let_def split: option.splits if_splits)

lemma uploaded_step_out:
  "uploaded_step disk f sc = sc \<or> manifest_path (out (uploaded_step disk f sc)) = d_path f"
  by (auto simp: uploaded_step_def take_item_def d_path_def split: option.splits
      dest: load_manifest_path)

lemma uploaded_scan_listed:
  "found (fold (uploaded_step disk) fs sc) \<Longrightarrow>
     manifest_path (out (fold (uploaded_step disk) fs sc)) \<in> d_path ` set fs \<or>
     (found sc \<and> out (fold (uploaded_step disk) fs sc) = out sc)"
proof (induction fs arbitrary: sc)
  case Nil
  then show ?case by simp
next
  case (Cons f fs)
  from Cons.IH[of "uploaded_step disk f sc"] Cons.prems
  have "manifest_path (out (fold (uploaded_step disk) fs (uploaded_step disk f sc))) \<in> d_path ` set fs \<or>
        (found (uploaded_step disk f sc) \<and>
         out (fold (uploaded_step disk) fs (uploaded_step disk f sc)) = out (uploaded_step disk f sc))"
    by simp
  then show ?case using uploaded_step_out[of disk f sc] by auto
qed

lemma oldest_uploaded_listed:
  assumes "find_oldest_uploaded out0 s = (True, item)"
  shows "manifest_path item \<in> d_path ` set (manifests (sd s))"
  using assms uploaded_scan_listed[of "sd s" "manifests (sd s)" "scan_init out0"]
  by (auto simp: find_oldest_uploaded_def Let_def scan_init_def split: if_splits)

lemma remove_item_manifests:
  "\<exists>P. manifests (sd (remove_item item s)) = filter P (manifests (sd s)) \<and>
       (\<forall>f. d_path f = manifest_path item \<longrightarrow> \<not> P f)"
proof -
  let ?A = "SD_exists (sd s) (filepath item)"
  let ?s1 = "if ?A then s\<lparr>sd := SD_remove (filepath item) (sd s)\<rparr> else s"
  let ?B = "SD_exists (sd ?s1) (manifest_path item)"
  have 1: "manifests (sd ?s1) = filter (\<lambda>e. ?A \<longrightarrow> d_path e \<noteq> filepath item) (manifests (sd s))"
    by (simp add: SD_remove_def)
  have 2: "manifests (sd (remove_item item s)) =
           filter (\<lambda>e. ?B \<longrightarrow> d_path e \<noteq> manifest_path item) (manifests (sd ?s1))"
    by (simp add: remove_item_def Let_def SD_remove_def)
  have 3: "\<not> ?B \<Longrightarrow> manifest_path item \<notin> d_path ` set (manifests (sd ?s1))"
    by (simp add: SD_exists_def)
  let ?P = "\<lambda>e. (?A \<longrightarrow> d_path e \<noteq> filepath item) \<and> (?B \<longrightarrow> d_path e \<noteq> manifest_path item)"
  have "manifests (sd (remove_item item s)) = filter ?P (manifests (sd s))"
    unfolding 2 1 by (simp add: conj_commute)
  moreover have "manifests (sd (remove_item item s)) =
       filter (\<lambda>e. ?P e \<and> d_path e \<noteq> manifest_path item) (manifests (sd s))"
  proof (cases ?B)
    case True
    then show ?thesis unfolding 2 1 by (simp add: conj_commute)
  next
    case False
    from 3[OF False] have "\<forall>e \<in> set (manifests (sd ?s1)). d_path e \<noteq> manifest_path item"
      by (metis image_eqI)
    then have "filter (\<lambda>e. d_path e \<noteq> manifest_path item) (manifests (sd ?s1)) = manifests (sd ?s1)"
      by (simp add: filter_id_conv)
    then show ?thesis unfolding 2 1 using False by (simp add: conj_commute)
  qed
  ultimately show ?thesis by blast
qed

lemma oldest_uploaded_shrinks:
  assumes "(True, item) = find_oldest_uploaded out0 s"
  shows "length (manifests (sd (remove_item item s))) < length (manifests (sd s))"
proof -
  obtain f where f: "f \<in> set (manifests (sd s))" "d_path f = manifest_path item"
    using oldest_uploaded_listed[of out0 s item] assms by auto
  obtain P where P: "manifests (sd (remove_item item s)) = filter P (manifests (sd s))" "\<not> P f"
    using remove_item_manifests[of item s] f(2) by blast
  show ?thesis unfolding P(1) using f(1) P(2) by (rule length_filter_less)
qed

text \<open>
  \<^verbatim>\<open>enforce_retention\<close>. \<open>totalBytes\<close> and \<open>usedBytes\<close> are the card's counters as functions
  of what is on the card. The list returned is the items removed, in order: the source
  counts them in \<^verbatim>\<open>deletions\<close> and prints the count.
\<close>

function retention_loop ::
  "(sdcard \<Rightarrow> 64 word) \<Rightarrow> (sdcard \<Rightarrow> 64 word) \<Rightarrow> fw \<Rightarrow> 8 word \<Rightarrow> PendingItem list
     \<Rightarrow> fw \<times> 8 word \<times> PendingItem list" where
  "retention_loop totalBytes usedBytes s free_pct deleted =
     (if free_pct < SD_MIN_FREE_PERCENT then
        (case find_oldest_uploaded PendingItem_init s of
           (False, _) \<Rightarrow> (s, free_pct, deleted)
         | (True, item) \<Rightarrow>
             let s' = remove_item item s
             in retention_loop totalBytes usedBytes s'
                  (free_percent (totalBytes (sd s')) (usedBytes (sd s'))) (deleted @ [item]))
      else (s, free_pct, deleted))"
  by pat_completeness auto
termination
  by (relation "measure (\<lambda>(t, u, s, p, d). length (manifests (sd s)))")
     (auto intro: oldest_uploaded_shrinks)

declare retention_loop.simps [simp del]

definition enforce_retention ::
  "(sdcard \<Rightarrow> 64 word) \<Rightarrow> (sdcard \<Rightarrow> 64 word) \<Rightarrow> fw \<Rightarrow> fw \<times> PendingItem list" where
  "enforce_retention totalBytes usedBytes s =
     (if \<not> sd_ok s then (s, [])
      else
        let free_pct = free_percent (totalBytes (sd s)) (usedBytes (sd s))
        in if free_pct \<ge> SD_MIN_FREE_PERCENT then (s\<lparr>capture_paused := False\<rparr>, [])
           else
             let (s', free_pct', deleted) = retention_loop totalBytes usedBytes s free_pct []
             in (s'\<lparr>capture_paused := (free_pct' < SD_EMERGENCY_FREE_PERCENT)\<rparr>, deleted))"

section \<open>Audio\<close>

definition AUDIO_SAMPLE_RATE :: nat where "AUDIO_SAMPLE_RATE = 16000"
definition AUDIO_FRAME_MS :: nat where "AUDIO_FRAME_MS = 20"
definition AUDIO_PREROLL_MS :: nat where "AUDIO_PREROLL_MS = 1000"
definition AUDIO_MIN_SEC :: nat where "AUDIO_MIN_SEC = 1"
definition AUDIO_MAX_SEC :: nat where "AUDIO_MAX_SEC = 60"
definition AUDIO_VAD_START_FRAMES :: int where "AUDIO_VAD_START_FRAMES = 4"
definition AUDIO_VAD_STOP_FRAMES :: int where "AUDIO_VAD_STOP_FRAMES = 50"
definition AUDIO_RMS_START_MULT :: real where "AUDIO_RMS_START_MULT = 3"
definition AUDIO_RMS_STOP_MULT :: real where "AUDIO_RMS_STOP_MULT = 18 / 10"
definition AUDIO_NOISE_EMA_ALPHA :: real where "AUDIO_NOISE_EMA_ALPHA = 1 / 100"
definition AUDIO_NOISE_UPDATE_MAX_MULT :: real where "AUDIO_NOISE_UPDATE_MAX_MULT = 15 / 10"
definition AUDIO_PHOTO_CLIP_ENABLED :: bool where "AUDIO_PHOTO_CLIP_ENABLED = True"
definition AUDIO_PHOTO_CLIP_POST_MS :: nat where "AUDIO_PHOTO_CLIP_POST_MS = 9000"
definition AUDIO_HEARTBEAT_ENABLED :: bool where "AUDIO_HEARTBEAT_ENABLED = True"
definition AUDIO_HEARTBEAT_INTERVAL_MS :: "32 word" where "AUDIO_HEARTBEAT_INTERVAL_MS = 5 * 60 * 1000"
definition AUDIO_HEARTBEAT_DURATION_MS :: nat where "AUDIO_HEARTBEAT_DURATION_MS = 3000"

definition kAudioFrameSamples :: nat where
  "kAudioFrameSamples = (AUDIO_SAMPLE_RATE * AUDIO_FRAME_MS) div 1000"

definition kAudioPrerollSamples :: nat where
  "kAudioPrerollSamples = (AUDIO_SAMPLE_RATE * AUDIO_PREROLL_MS) div 1000"

text \<open>
  What one call of \<^verbatim>\<open>audio_tick\<close> reads from outside the firmware: whether \<^verbatim>\<open>i2s_read\<close>
  returned \<^verbatim>\<open>ESP_OK\<close>, the number of samples read and their RMS level (\<^verbatim>\<open>compute_rms\<close>),
  the clock (\<^verbatim>\<open>now_epoch()\<close>), the date and time of day as \<^verbatim>\<open>strftime\<close> and \<^verbatim>\<open>snprintf\<close>
  print them into the folder and file names, whether the audio folder exists or can be made,
  whether the audio file opens, and whether a write to it stores all its bytes. The
  samples themselves play no part in what follows and are left out.
\<close>

record audio_env =
  a_i2s_ok :: bool
  a_sample_count :: nat
  a_rms :: real
  a_now :: time_t
  a_yyyymmdd :: string
  a_hhmmss :: string
  a_folder_ok :: bool
  a_open_ok :: bool
  a_write_ok :: bool

definition get_next_seq :: "fw \<Rightarrow> 32 word \<times> fw" where
  "get_next_seq s = (prefs_seq s, s\<lparr>prefs_seq := prefs_seq s + 1\<rparr>)"

definition build_audio_folder :: "audio_env \<Rightarrow> fw \<Rightarrow> string" where
  "build_audio_folder e s =
     (if \<not> ntp_synced s then ''/unsynced_audio'' else ''/audio/'' @ a_yyyymmdd e)"

text \<open>\<^verbatim>\<open>%06lu\<close>: the decimal digits, filled with zeros on the left to six places.\<close>

definition pad6 :: "string \<Rightarrow> string" where
  "pad6 ds = replicate (6 - length ds) (CHR ''0'') @ ds"

definition build_audio_filename :: "audio_env \<Rightarrow> 32 word \<Rightarrow> fw \<Rightarrow> string" where
  "build_audio_filename e sq s =
     (if \<not> ntp_synced s then ''/audio_'' @ String_of_nat (unat sq) @ ''.wav''
      else ''/'' @ a_hhmmss e @ ''_'' @ pad6 (String_of_nat (unat sq)) @ ''.wav'')"

definition ensure_audio_folder :: "audio_env \<Rightarrow> string \<Rightarrow> fw \<Rightarrow> bool" where
  "ensure_audio_folder e folder s = (if \<not> sd_ok s then False else a_folder_ok e)"

text \<open>\<^verbatim>\<open>SD_MMC.open(path, FILE_WRITE)\<close> that succeeds leaves a file of that path.\<close>

definition SD_create :: "string \<Rightarrow> sdcard \<Rightarrow> sdcard" where
  "SD_create path disk =
     (if path \<in> set (files disk) then disk else disk\<lparr>files := files disk @ [path]\<rparr>)"

definition preroll_push :: "nat \<Rightarrow> fw \<Rightarrow> fw" where
  "preroll_push count s =
     (if kAudioPrerollSamples = 0 then s
      else s\<lparr>preroll_index := (preroll_index s + count) mod kAudioPrerollSamples,
             preroll_filled := (preroll_filled s \<or> preroll_index s + count \<ge> kAudioPrerollSamples)\<rparr>)"

definition preroll_write :: "audio_env \<Rightarrow> fw \<Rightarrow> nat" where
  "preroll_write e s =
     (if kAudioPrerollSamples = 0 then 0
      else
        let available = (if preroll_filled s then kAudioPrerollSamples else preroll_index s)
        in if available = 0 then 0
           else if a_write_ok e then available else 0)"

definition ms_to_samples :: "nat \<Rightarrow> nat" where
  "ms_to_samples ms = (AUDIO_SAMPLE_RATE * ms) div 1000"

definition adjust_start_epoch :: "time_t \<Rightarrow> time_t" where
  "adjust_start_epoch epoch =
     (let preroll_sec = AUDIO_PREROLL_MS div 1000
      in if preroll_sec = 0 then epoch
         else if epoch > int preroll_sec then epoch - int preroll_sec
         else epoch)"

text \<open>
  The bytes of the audio file are not held: \<^verbatim>\<open>write_wav_header\<close> and the sample data
  change no variable, so of a write only its success and the count of samples remain.
\<close>

definition write_audio_frame :: "audio_env \<Rightarrow> nat \<Rightarrow> fw \<Rightarrow> bool \<times> fw" where
  "write_audio_frame e count s =
     (if \<not> audio_file s then (False, s)
      else if \<not> a_write_ok e then (False, s)
      else (True, s\<lparr>audio_samples_written := audio_samples_written s + count\<rparr>))"

definition finish_audio_recording :: "bool \<Rightarrow> fw \<Rightarrow> fw" where
  "finish_audio_recording keep0 s =
     (if \<not> audio_recording s then s
      else
        let min_samples = AUDIO_MIN_SEC * AUDIO_SAMPLE_RATE;
            keep = (if audio_samples_written s < min_samples then False else keep0);
            s1 = (if audio_file s then s\<lparr>audio_file := False\<rparr> else s);
            s2 = (if \<not> keep \<or> audio_filepath s1 = [] then
                    (if audio_filepath s1 \<noteq> [] \<and> SD_exists (sd s1) (audio_filepath s1)
                     then s1\<lparr>sd := SD_remove (audio_filepath s1) (sd s1)\<rparr> else s1)
                  else
                    snd (write_manifest_atomic (audio_seq s1) (audio_filepath s1)
                           (audio_start_epoch s1) ''PENDING'' ''audio'' ''audio/wav'' 0 0 s1))
        in s2\<lparr>audio_recording := False, audio_force_active := False,
               audio_force_stop_samples := 0, audio_samples_written := 0,
               audio_filepath := [], vad_over_count := 0, vad_under_count := 0\<rparr>)"

definition start_audio_recording :: "audio_env \<Rightarrow> nat \<Rightarrow> time_t \<Rightarrow> nat \<Rightarrow> fw \<Rightarrow> bool \<times> fw" where
  "start_audio_recording e count start_epoch force_stop_samples s =
     (if \<not> sd_ok s \<or> capture_paused s then (False, s)
      else if audio_recording s then (False, s)
      else
        let (sq, s1) = get_next_seq s;
            epoch = (if start_epoch > 0 then start_epoch else a_now e);
            s2 = s1\<lparr>audio_seq := sq, audio_start_epoch := adjust_start_epoch epoch,
                    audio_force_stop_samples := force_stop_samples,
                    audio_force_active := (force_stop_samples > 0)\<rparr>;
            folder = build_audio_folder e s2
        in if \<not> ensure_audio_folder e folder s2 then (False, s2)
           else
             let s3 = s2\<lparr>audio_filepath := folder @ build_audio_filename e sq s2\<rparr>
             in if \<not> a_open_ok e then (False, s3\<lparr>audio_file := False, audio_filepath := []\<rparr>)
                else
                  let s4 = s3\<lparr>audio_file := True, sd := SD_create (audio_filepath s3) (sd s3)\<rparr>;
                      s5 = s4\<lparr>audio_samples_written := 0\<rparr>;
                      s6 = s5\<lparr>audio_samples_written := audio_samples_written s5 + preroll_write e s5,
                              audio_recording := True, vad_under_count := 0\<rparr>
                  in (case write_audio_frame e count s6 of
                        (False, s7) \<Rightarrow> (False, finish_audio_recording False s7)
                      | (True, s7) \<Rightarrow> (True, s7)))"

definition audio_tick :: "audio_env \<Rightarrow> fw \<Rightarrow> fw" where
  "audio_tick e s =
     (if \<not> audio_ok s then s
      else if \<not> a_i2s_ok e then s
      else
        let sample_count = a_sample_count e
        in if sample_count = 0 then s
           else
             let rms = a_rms e
             in if \<not> audio_recording s then
                  (let (force_start, force_samples, force_epoch, s1) =
                         (if audio_photo_clip_pending s then
                            (True, kAudioPrerollSamples + ms_to_samples AUDIO_PHOTO_CLIP_POST_MS,
                             audio_photo_clip_epoch s, s\<lparr>audio_photo_clip_pending := False\<rparr>)
                          else if audio_heartbeat_pending s then
                            (True, kAudioPrerollSamples + ms_to_samples AUDIO_HEARTBEAT_DURATION_MS,
                             a_now e, s\<lparr>audio_heartbeat_pending := False\<rparr>)
                          else (False, 0, 0, s))
                   in if force_start then
                        snd (start_audio_recording e sample_count force_epoch force_samples s1)
                      else
                        let s2 = preroll_push sample_count s1;
                            s3 = (if noise_rms s2 \<le> 1 then s2\<lparr>noise_rms := rms\<rparr>
                                  else if rms < noise_rms s2 * AUDIO_NOISE_UPDATE_MAX_MULT then
                                    s2\<lparr>noise_rms := noise_rms s2 * (1 - AUDIO_NOISE_EMA_ALPHA)
                                                      + rms * AUDIO_NOISE_EMA_ALPHA\<rparr>
                                  else s2);
                            s4 = (if rms > noise_rms s3 * AUDIO_RMS_START_MULT
                                  then s3\<lparr>vad_over_count := vad_over_count s3 + 1\<rparr>
                                  else s3\<lparr>vad_over_count := 0\<rparr>)
                        in if vad_over_count s4 \<ge> AUDIO_VAD_START_FRAMES then
                             (case start_audio_recording e sample_count (a_now e) 0 s4 of
                                (True, s5) \<Rightarrow> s5\<lparr>vad_over_count := 0\<rparr>
                              | (False, s5) \<Rightarrow> s5)
                           else s4)
                else
                  (case write_audio_frame e sample_count s of
                     (False, s1) \<Rightarrow> finish_audio_recording False s1
                   | (True, s1) \<Rightarrow>
                       if audio_force_active s1 then
                         (if audio_force_stop_samples s1 > 0 \<and>
                             audio_samples_written s1 \<ge> audio_force_stop_samples s1
                          then finish_audio_recording True s1 else s1)
                       else
                         let s2 = (if rms < noise_rms s1 * AUDIO_RMS_STOP_MULT
                                   then s1\<lparr>vad_under_count := vad_under_count s1 + 1\<rparr>
                                   else s1\<lparr>vad_under_count := 0\<rparr>);
                             duration_sec = real (audio_samples_written s2) / real AUDIO_SAMPLE_RATE
                         in if vad_under_count s2 \<ge> AUDIO_VAD_STOP_FRAMES \<or>
                               duration_sec \<ge> real AUDIO_MAX_SEC
                            then finish_audio_recording True s2 else s2))"

section \<open>Photo capture and the main loop\<close>

definition CAPTURE_INTERVAL_MS :: "32 word" where "CAPTURE_INTERVAL_MS = 30000"
definition UPLOAD_INTERVAL_MS :: "32 word" where "UPLOAD_INTERVAL_MS = 15000"
definition RETENTION_CHECK_INTERVAL_MS :: "32 word" where "RETENTION_CHECK_INTERVAL_MS = 60 * 60 * 1000"
definition TELEMETRY_INTERVAL_MS :: "32 word" where "TELEMETRY_INTERVAL_MS = 60 * 60 * 1000"

text \<open>
  What one call of \<^verbatim>\<open>capture_and_save\<close> reads from outside: whether the camera gave a frame,
  whether the photo file opens, whether all bytes of the frame were written, the clock, and
  the date and time of day as printed into the names.
\<close>

record capture_env =
  c_fb_ok :: bool
  c_open_ok :: bool
  c_write_ok :: bool
  c_now :: time_t
  c_yyyymmdd :: string
  c_hhmmss :: string

definition build_date_folder :: "capture_env \<Rightarrow> fw \<Rightarrow> string" where
  "build_date_folder e s = (if \<not> ntp_synced s then ''/unsynced'' else ''/'' @ c_yyyymmdd e)"

definition build_filename :: "capture_env \<Rightarrow> 32 word \<Rightarrow> fw \<Rightarrow> string" where
  "build_filename e sq s =
     (if \<not> ntp_synced s then ''/img_'' @ String_of_nat (unat sq) @ ''.jpg''
      else ''/'' @ c_hhmmss e @ ''_'' @ pad6 (String_of_nat (unat sq)) @ ''.jpg'')"

definition capture_and_save :: "capture_env \<Rightarrow> fw \<Rightarrow> bool \<times> fw" where
  "capture_and_save e s =
     (if \<not> sd_ok s \<or> \<not> camera_ok s then (False, s)
      else if capture_paused s then (False, s)
      else if \<not> c_fb_ok e then (False, s)
      else
        let (sq, s1) = get_next_seq s;
            folder = build_date_folder e s1;
            fpath = folder @ build_filename e sq s1
        in if \<not> c_open_ok e then (False, s1)
           else
             let s2 = s1\<lparr>sd := SD_create fpath (sd s1)\<rparr>
             in if \<not> c_write_ok e then (False, s2)
                else
                  let captured = c_now e;
                      s3 = snd (write_manifest_atomic sq fpath captured ''PENDING'' ''photo''
                                  ''image/jpeg'' 0 0 s2);
                      s4 = (if audio_ok s3 \<and> AUDIO_PHOTO_CLIP_ENABLED \<and> \<not> audio_recording s3
                            then s3\<lparr>audio_photo_clip_pending := True,
                                    audio_photo_clip_epoch := captured\<rparr>
                            else s3)
                  in (True, s4))"

text \<open>
  What one turn of \<^verbatim>\<open>loop\<close> reads from outside: \<^verbatim>\<open>millis()\<close>, the outcome of a Wi-Fi
  connect and of an NTP sync should the turn try them, and what the calls made in the turn
  read. \<^verbatim>\<open>send_telemetry\<close> changes no variable and no file.
\<close>

record loop_env =
  l_audio :: audio_env
  l_millis :: "32 word"
  l_wifi_connect :: bool
  l_ntp_sync :: bool
  l_capture :: capture_env
  l_uploads :: "nat \<Rightarrow> upload_env"
  l_totalBytes :: "sdcard \<Rightarrow> 64 word"
  l_usedBytes :: "sdcard \<Rightarrow> 64 word"

text \<open>The blocks of \<^verbatim>\<open>loop\<close> after \<^verbatim>\<open>audio_tick\<close>, one definition each, in the source's order.\<close>

definition loop_wifi :: "loop_env \<Rightarrow> fw \<Rightarrow> fw" where
  "loop_wifi e s =
     (let now = l_millis e
      in if \<not> wifi_ok s \<and> \<not> audio_recording s \<and> now - last_wifi_attempt s \<ge> 10000
         then s\<lparr>wifi_ok := l_wifi_connect e, last_wifi_attempt := now\<rparr> else s)"

definition loop_ntp :: "loop_env \<Rightarrow> fw \<Rightarrow> fw" where
  "loop_ntp e s =
     (let now = l_millis e
      in if wifi_ok s \<and> \<not> ntp_synced s \<and> \<not> audio_recording s \<and> now - last_ntp_attempt s \<ge> 15000
         then s\<lparr>ntp_synced := l_ntp_sync e, last_ntp_attempt := now\<rparr> else s)"

definition loop_capture :: "loop_env \<Rightarrow> fw \<Rightarrow> fw" where
  "loop_capture e s =
     (let now = l_millis e
      in if now - last_capture s \<ge> CAPTURE_INTERVAL_MS
         then (snd (capture_and_save (l_capture e) s))\<lparr>last_capture := now\<rparr> else s)"

definition loop_heartbeat :: "loop_env \<Rightarrow> fw \<Rightarrow> fw" where
  "loop_heartbeat e s =
     (let now = l_millis e
      in if audio_ok s \<and> AUDIO_HEARTBEAT_ENABLED then
           (if \<not> audio_recording s \<and> \<not> audio_heartbeat_pending s \<and>
               now - last_audio_heartbeat s \<ge> AUDIO_HEARTBEAT_INTERVAL_MS
            then s\<lparr>audio_heartbeat_pending := True, last_audio_heartbeat := now\<rparr> else s)
         else s)"

definition loop_upload :: "loop_env \<Rightarrow> fw \<Rightarrow> fw" where
  "loop_upload e s =
     (let now = l_millis e
      in if \<not> audio_recording s \<and> now - last_upload s \<ge> UPLOAD_INTERVAL_MS
         then (upload_batch (l_uploads e) s)\<lparr>last_upload := now\<rparr> else s)"

definition loop_retention :: "loop_env \<Rightarrow> fw \<Rightarrow> fw" where
  "loop_retention e s =
     (let now = l_millis e
      in if \<not> audio_recording s \<and> now - last_retention_check s \<ge> RETENTION_CHECK_INTERVAL_MS
         then (fst (enforce_retention (l_totalBytes e) (l_usedBytes e) s))\<lparr>last_retention_check := now\<rparr>
         else s)"

definition loop_telemetry :: "loop_env \<Rightarrow> fw \<Rightarrow> fw" where
  "loop_telemetry e s =
     (let now = l_millis e
      in if \<not> audio_recording s \<and> now - last_telemetry s \<ge> TELEMETRY_INTERVAL_MS
         then s\<lparr>last_telemetry := now\<rparr> else s)"

definition loop :: "loop_env \<Rightarrow> fw \<Rightarrow> fw" where
  "loop e s =
     loop_telemetry e (loop_retention e (loop_upload e (loop_heartbeat e (loop_capture e
       (loop_ntp e (loop_wifi e (audio_tick (l_audio e) s)))))))"

section \<open>Notions of the specification\<close>

text \<open>
  The ordering rule of the specification (section 4.5), in its words: \<open>older a b\<close> says
  that candidate \<open>a\<close> is older than candidate \<open>b\<close>.
  \<^enum> If both have \<^verbatim>\<open>captured_epoch > 0\<close>: the smaller \<^verbatim>\<open>captured_epoch\<close>.
  \<^enum> If exactly one has \<^verbatim>\<open>captured_epoch > 0\<close>: that one.
  \<^enum> If both have \<^verbatim>\<open>captured_epoch == 0\<close>: the smaller \<^verbatim>\<open>seq\<close>.
\<close>

definition older :: "PendingItem \<Rightarrow> PendingItem \<Rightarrow> bool" where
  "older a b =
     (if captured_epoch a > 0 \<and> captured_epoch b > 0 then captured_epoch a < captured_epoch b
      else if captured_epoch a > 0 \<and> \<not> captured_epoch b > 0 then True
      else if \<not> captured_epoch a > 0 \<and> captured_epoch b > 0 then False
      else if captured_epoch a = 0 \<and> captured_epoch b = 0 then seq a < seq b
      else False)"

text \<open>
  The eligibility predicate of the specification (section 4.4) for a PENDING item at time
  \<open>now\<close>: \<^verbatim>\<open>upload_attempts == 0\<close> or
  \<^verbatim>\<open>now - last_attempt_epoch >= backoff(upload_attempts)\<close>.
\<close>

definition eligible :: "time_t \<Rightarrow> PendingItem \<Rightarrow> bool" where
  "eligible now item \<longleftrightarrow>
     upload_attempts item = 0 \<or>
     now - last_attempt_epoch item \<ge> int (backoff_seconds (upload_attempts item))"

text \<open>
  The manifests of a status (the specification's \<^verbatim>\<open>iter_manifests(filter_status)\<close>): the
  files of the listing \<open>fs\<close> that are no directories, are named \<^verbatim>\<open>*.json\<close>, load, and have
  the status. \<open>manifests_with_status\<close> takes the whole directory.
\<close>

definition listed_with_status :: "sdcard \<Rightarrow> string \<Rightarrow> dirent list \<Rightarrow> PendingItem list" where
  "listed_with_status disk st fs =
     List.map_filter (\<lambda>f.
        if d_isDirectory f \<or> \<not> endsWith (d_name f) ''.json'' then None
        else (case load_manifest disk (d_path f) of
                None \<Rightarrow> None
              | Some (item, status) \<Rightarrow> if status = st then Some item else None)) fs"

definition manifests_with_status :: "sdcard \<Rightarrow> string \<Rightarrow> PendingItem list" where
  "manifests_with_status disk st = listed_with_status disk st (manifests disk)"

text \<open>
  The PENDING manifests that \<^verbatim>\<open>find_oldest_pending\<close> lets through to the comparison at time
  \<open>now\<close>: below the attempt limit, and not held back by the test
  \<^verbatim>\<open>backoff > 0 && (now - item.last_attempt_epoch) < (time_t)backoff\<close>.
\<close>

definition pending_ok :: "time_t \<Rightarrow> PendingItem \<Rightarrow> bool" where
  "pending_ok now item \<longleftrightarrow>
     upload_attempts item < UPLOAD_MAX_ATTEMPTS \<and>
     \<not> (backoff_seconds (upload_attempts item) > 0 \<and>
        now - last_attempt_epoch item < int (backoff_seconds (upload_attempts item)))"

definition pending_candidates :: "time_t \<Rightarrow> sdcard \<Rightarrow> PendingItem list" where
  "pending_candidates now disk = filter (pending_ok now) (manifests_with_status disk ''PENDING'')"

text \<open>
  The directory as the firmware leaves it: \<^verbatim>\<open>write_manifest_atomic\<close> is the only writer, so
  no two files share a name and a manifest file is named after the \<^verbatim>\<open>seq\<close> it holds.
\<close>

definition wf_manifests :: "sdcard \<Rightarrow> bool" where
  "wf_manifests disk \<longleftrightarrow>
     distinct (map d_name (manifests disk)) \<and>
     (\<forall>f \<in> set (manifests disk).
        case d_doc f of None \<Rightarrow> True | Some doc \<Rightarrow> d_name f = manifest_name (doc_seq doc))"

text \<open>
  The manifest's numbers are unsigned in the data model (specification, section 3):
  \<^verbatim>\<open>captured_at_epoch\<close> and \<^verbatim>\<open>last_attempt_epoch\<close> are unsigned seconds,
  \<^verbatim>\<open>upload_attempts\<close> is an integer \<open>\<ge> 0\<close>. The source reads them into signed variables.
\<close>

definition unsigned_manifests :: "sdcard \<Rightarrow> bool" where
  "unsigned_manifests disk \<longleftrightarrow>
     (\<forall>f \<in> set (manifests disk).
        case d_doc f of
          None \<Rightarrow> True
        | Some doc \<Rightarrow> 0 \<le> doc_captured_at_epoch doc \<and> 0 \<le> doc_upload_attempts doc \<and>
                      0 \<le> doc_last_attempt_epoch doc)"


text \<open>
  A list of items in which none is older than one before it: the order in which retention
  is to delete.
\<close>

fun oldest_first :: "PendingItem list \<Rightarrow> bool" where
  "oldest_first [] = True"
| "oldest_first (d # ds) = ((\<forall>x \<in> set ds. \<not> older x d) \<and> oldest_first ds)"

section \<open>Notions used in the statements about audio and the loop\<close>

text \<open>\<open>card_only s s'\<close>: the state \<open>s'\<close> differs from \<open>s\<close> in nothing but the card.\<close>

definition card_only :: "fw \<Rightarrow> fw \<Rightarrow> bool" where
  "card_only s s' \<longleftrightarrow> (\<exists>d. s' = s\<lparr>sd := d\<rparr>)"

text \<open>
  \<open>clip_eq s s1\<close>: the two states agree on the recording in progress, on the card and on the
  flags of the forced clips.
\<close>

definition clip_eq :: "fw \<Rightarrow> fw \<Rightarrow> bool" where
  "clip_eq s s1 \<longleftrightarrow>
     audio_recording s1 = audio_recording s \<and> audio_seq s1 = audio_seq s \<and>
     audio_start_epoch s1 = audio_start_epoch s \<and> audio_filepath s1 = audio_filepath s \<and>
     sd s1 = sd s \<and> sd_ok s1 = sd_ok s \<and> audio_ok s1 = audio_ok s \<and>
     audio_photo_clip_pending s1 = audio_photo_clip_pending s \<and>
     audio_heartbeat_pending s1 = audio_heartbeat_pending s \<and>
     audio_force_active s1 = audio_force_active s"

text \<open>Any number of calls of \<^verbatim>\<open>audio_tick\<close>, one after the other.\<close>

definition audio_ticks :: "audio_env list \<Rightarrow> fw \<Rightarrow> fw" where
  "audio_ticks es s = fold audio_tick es s"

text \<open>The calls of \<^verbatim>\<open>audio_tick\<close> up to the one that ends the recording in progress.\<close>

fun record_ticks :: "audio_env list \<Rightarrow> fw \<Rightarrow> fw" where
  "record_ticks [] s = s"
| "record_ticks (e # es) s = (if audio_recording s then record_ticks es (audio_tick e s) else s)"

text \<open>No forced clip is pending and the recording in progress, if any, is not a forced one.\<close>

definition unforced :: "fw \<Rightarrow> bool" where
  "unforced s \<longleftrightarrow> \<not> audio_photo_clip_pending s \<and> \<not> audio_heartbeat_pending s \<and>
     (audio_recording s \<longrightarrow> \<not> audio_force_active s)"

text \<open>
  \<open>clip_over s t\<close>: what the clip recording in \<open>s\<close> can have made of the card by \<open>t\<close>. It is
  still recording, or the card is as it was, or the clip was too short and its file is
  removed, or its manifest is written with the start epoch the state \<open>s\<close> holds.
\<close>

definition clip_over :: "fw \<Rightarrow> fw \<Rightarrow> bool" where
  "clip_over s t \<longleftrightarrow>
     audio_recording t \<or> sd t = sd s \<or> sd t = SD_remove (audio_filepath s) (sd s) \<or>
     sd t = sd (snd (write_manifest_atomic (audio_seq s) (audio_filepath s) (audio_start_epoch s)
                       ''PENDING'' ''audio'' ''audio/wav'' 0 0 s))"

text \<open>The three flags that the forced clips depend on.\<close>

definition audio_flags :: "fw \<Rightarrow> bool \<times> bool \<times> bool" where
  "audio_flags s = (audio_recording s, audio_photo_clip_pending s, audio_heartbeat_pending s)"

text \<open>The state in which \<^verbatim>\<open>loop\<close> comes to its heartbeat block.\<close>

definition before_heartbeat :: "loop_env \<Rightarrow> fw \<Rightarrow> fw" where
  "before_heartbeat e s = loop_capture e (loop_ntp e (loop_wifi e (audio_tick (l_audio e) s)))"

section \<open>Concrete states\<close>

text \<open>
  The globals with their initialisers in main.cpp and an empty card, and a way to write
  down the manifest file of a photo. The examples below start from these.
\<close>

definition fw_init :: fw where
  "fw_init =
     \<lparr>sd_ok = False, camera_ok = False, ntp_synced = False, wifi_ok = False,
      capture_paused = False, last_capture = 0, last_upload = 0, last_wifi_attempt = 0,
      last_ntp_attempt = 0, last_retention_check = 0, last_telemetry = 0,
      audio_ok = False, audio_recording = False, audio_file = False, audio_filepath = [],
      audio_start_epoch = 0, audio_seq = 0, audio_samples_written = 0, noise_rms = 0,
      vad_over_count = 0, vad_under_count = 0, audio_force_active = False,
      audio_force_stop_samples = 0, audio_photo_clip_pending = False,
      audio_photo_clip_epoch = 0, audio_heartbeat_pending = False, last_audio_heartbeat = 0,
      preroll_index = 0, preroll_filled = False, prefs_seq = 0,
      sd = \<lparr>manifests = [], files = []\<rparr>\<rparr>"

definition photo_path :: "32 word \<Rightarrow> string" where
  "photo_path q = ''/unsynced/img_'' @ String_of_nat (unat q) @ ''.jpg''"

definition photo_manifest :: "32 word \<Rightarrow> time_t \<Rightarrow> string \<Rightarrow> int \<Rightarrow> time_t \<Rightarrow> dirent" where
  "photo_manifest q cap st attempts last_attempt =
     \<lparr>d_name = manifest_name q, d_isDirectory = False,
      d_doc = Some \<lparr>doc_filepath = photo_path q, doc_seq = q, doc_captured_at_epoch = cap,
                    doc_status = st, doc_item_type = ''photo'', doc_content_type = ''image/jpeg'',
                    doc_upload_attempts = attempts, doc_last_attempt_epoch = last_attempt\<rparr>\<rparr>"

definition photo_item :: "32 word \<Rightarrow> time_t \<Rightarrow> int \<Rightarrow> time_t \<Rightarrow> PendingItem" where
  "photo_item q cap attempts last_attempt =
     \<lparr>manifest_path = ''/manifests/'' @ manifest_name q, filepath = photo_path q,
      item_type = ''photo'', content_type = ''image/jpeg'', seq = q, captured_epoch = cap,
      upload_attempts = attempts, last_attempt_epoch = last_attempt\<rparr>"

text \<open>
  A mounted card with Wi-Fi up: three uploaded photos (taken at 200, at 100 and before the
  clock was set), and three pending ones: one never tried, one tried once at 1000, one that
  has used its three attempts.
\<close>

definition demo_queue :: fw where
  "demo_queue = fw_init\<lparr>sd_ok := True, wifi_ok := True,
     sd := \<lparr>manifests =
              [photo_manifest 1 200 ''UPLOADED'' 1 210,
               photo_manifest 2 100 ''UPLOADED'' 1 110,
               photo_manifest 3 0 ''UPLOADED'' 2 400,
               photo_manifest 4 300 ''PENDING'' 0 0,
               photo_manifest 5 250 ''PENDING'' 1 1000,
               photo_manifest 6 150 ''PENDING'' 3 900],
            files = [photo_path 1, photo_path 2, photo_path 3, photo_path 4, photo_path 5,
                     photo_path 6]\<rparr>\<rparr>"

text \<open>
  A frame of 320 silent samples read at the time \<open>now\<close>, with the card accepting every
  operation; a state with a heartbeat clip pending; a state with a photo clip pending and no
  card mounted.
\<close>

definition demo_frame :: "time_t \<Rightarrow> audio_env" where
  "demo_frame now = \<lparr>a_i2s_ok = True, a_sample_count = 320, a_rms = 0, a_now = now,
     a_yyyymmdd = [], a_hhmmss = [], a_folder_ok = True, a_open_ok = True, a_write_ok = True\<rparr>"

definition demo_heartbeat :: fw where
  "demo_heartbeat = fw_init\<lparr>sd_ok := True, audio_ok := True, audio_heartbeat_pending := True\<rparr>"

definition demo_no_card :: fw where
  "demo_no_card = fw_init\<lparr>audio_ok := True, audio_photo_clip_pending := True,
     audio_photo_clip_epoch := 1000\<rparr>"

text \<open>
  The state after a \<^verbatim>\<open>setup\<close> in which card, camera and microphone came up and nothing was
  captured, and a turn of \<^verbatim>\<open>loop\<close> five minutes later: the capture interval and the
  heartbeat interval have both passed, the camera gives a frame, there is no Wi-Fi.
\<close>

definition demo_booted :: fw where
  "demo_booted = fw_init\<lparr>sd_ok := True, camera_ok := True, audio_ok := True\<rparr>"

definition demo_turn :: loop_env where
  "demo_turn =
     \<lparr>l_audio = demo_frame 300, l_millis = 300000, l_wifi_connect = False, l_ntp_sync = False,
      l_capture = \<lparr>c_fb_ok = True, c_open_ok = True, c_write_ok = True, c_now = 300,
                   c_yyyymmdd = [], c_hhmmss = []\<rparr>,
      l_uploads = (\<lambda>i. \<lparr>u_now = 300, u_attempt_epoch = 300, u_device_token = ''T8rLQ'',
                         u_target_ok = False, u_stream_ok = False, u_ingest_ok = False\<rparr>),
      l_totalBytes = (\<lambda>disk. 1000), l_usedBytes = (\<lambda>disk. 10)\<rparr>"

section \<open>Properties of the selection\<close>

subsection \<open>The comparison keeps a minimum\<close>

definition scan_ok :: "scan \<Rightarrow> bool" where
  "scan_ok sc \<longleftrightarrow>
     (found sc \<longrightarrow> best_epoch sc = captured_epoch (out sc) \<and> best_seq sc = seq (out sc)
        \<and> 0 \<le> captured_epoch (out sc))"

lemma better_older:
  "scan_ok sc \<Longrightarrow> found sc \<Longrightarrow> 0 \<le> captured_epoch c \<Longrightarrow> better sc c = older c (out sc)"
  by (auto simp: better_def older_def scan_ok_def)

lemma older_irrefl: "\<not> older a a"
  by (simp add: older_def)

lemma older_negtrans:
  "0 \<le> captured_epoch a \<Longrightarrow> 0 \<le> captured_epoch b \<Longrightarrow> 0 \<le> captured_epoch c \<Longrightarrow>
   \<not> older c b \<Longrightarrow> older a b \<Longrightarrow> \<not> older c a"
  by (auto simp: older_def split: if_splits)

lemma older_incomparable_trans:
  "0 \<le> captured_epoch a \<Longrightarrow> 0 \<le> captured_epoch b \<Longrightarrow> 0 \<le> captured_epoch c \<Longrightarrow>
   \<not> older c b \<Longrightarrow> \<not> older b a \<Longrightarrow> \<not> older c a"
  by (auto simp: older_def split: if_splits)

lemma take_item_ok: "0 \<le> captured_epoch c \<Longrightarrow> scan_ok sc \<Longrightarrow> scan_ok (take_item c sc)"
  by (simp add: take_item_def scan_ok_def)

lemma take_item_found: "found (take_item c sc)"
  by (simp add: take_item_def better_def)

lemma take_item_out:
  "scan_ok sc \<Longrightarrow> 0 \<le> captured_epoch c \<Longrightarrow>
   (out (take_item c sc) = c \<and> (found sc \<longrightarrow> older c (out sc))) \<or>
   (found sc \<and> out (take_item c sc) = out sc \<and> \<not> older c (out sc))"
  using better_older[of sc c] by (auto simp: take_item_def better_def)

lemma fold_take_item:
  assumes "\<forall>c \<in> set cs. 0 \<le> captured_epoch c" "scan_ok sc"
  shows "scan_ok (fold take_item cs sc)
     \<and> (found (fold take_item cs sc) \<longleftrightarrow> found sc \<or> cs \<noteq> [])
     \<and> (found (fold take_item cs sc) \<longrightarrow>
          (out (fold take_item cs sc) \<in> set cs \<or> (found sc \<and> out (fold take_item cs sc) = out sc))
          \<and> (\<forall>c \<in> set cs. \<not> older c (out (fold take_item cs sc)))
          \<and> (found sc \<longrightarrow> \<not> older (out sc) (out (fold take_item cs sc))))
     \<and> (\<not> found (fold take_item cs sc) \<longrightarrow> out (fold take_item cs sc) = out sc)"
  using assms
proof (induction cs arbitrary: sc)
  case Nil
  then show ?case by (simp add: older_irrefl)
next
  case (Cons c cs)
  let ?sc1 = "take_item c sc"
  let ?r = "out (fold take_item cs ?sc1)"
  have c0: "0 \<le> captured_epoch c" using Cons.prems by simp
  have ok1: "scan_ok ?sc1" using take_item_ok[OF c0 Cons.prems(2)] .
  have f1: "found ?sc1" by (rule take_item_found)
  have IH: "scan_ok (fold take_item cs ?sc1)
     \<and> found (fold take_item cs ?sc1)
     \<and> (?r \<in> set cs \<or> ?r = out ?sc1)
     \<and> (\<forall>c \<in> set cs. \<not> older c ?r)
     \<and> \<not> older (out ?sc1) ?r"
    using Cons.IH[of ?sc1] Cons.prems ok1 f1 by simp
  have r0: "0 \<le> captured_epoch ?r" using IH by (simp add: scan_ok_def)
  have o1: "0 \<le> captured_epoch (out ?sc1)" using ok1 f1 by (simp add: scan_ok_def)
  have n1: "\<not> older (out ?sc1) ?r" using IH by simp
  note out1 = take_item_out[OF Cons.prems(2) c0]
  have nc: "\<not> older c ?r"
  proof (cases "out ?sc1 = c")
    case True
    then show ?thesis using n1 by simp
  next
    case False
    then have "found sc" "out ?sc1 = out sc" "\<not> older c (out sc)" using out1 by auto
    then show ?thesis using older_incomparable_trans[of ?r "out sc" c] r0 c0 o1 n1 by auto
  qed
  have ns: "\<not> older (out sc) ?r" if fs: "found sc"
  proof -
    have s0: "0 \<le> captured_epoch (out sc)" using Cons.prems(2) fs by (simp add: scan_ok_def)
    from out1 show ?thesis
    proof
      assume "out ?sc1 = c \<and> (found sc \<longrightarrow> older c (out sc))"
      then have "older c (out sc)" using fs by simp
      then show ?thesis using older_negtrans[of "out sc" c ?r] nc r0 c0 s0
        by (auto simp: older_def split: if_splits)
    next
      assume "found sc \<and> out ?sc1 = out sc \<and> \<not> older c (out sc)"
      then show ?thesis using n1 by simp
    qed
  qed
  have mem: "?r \<in> set (c # cs) \<or> (found sc \<and> ?r = out sc)"
    using IH out1 by auto
  show ?case using IH nc ns mem by auto
qed

subsection \<open>The scans as comparisons over the manifests of a status\<close>

lemma map_filter_Cons:
  "List.map_filter g (x # xs) =
     (case g x of None \<Rightarrow> List.map_filter g xs | Some y \<Rightarrow> y # List.map_filter g xs)"
  by (simp add: List.map_filter_def split: option.splits)

lemma listed_Nil [simp]: "listed_with_status disk st [] = []"
  by (simp add: listed_with_status_def List.map_filter_def)

lemma listed_Cons:
  "listed_with_status disk st (f # fs) =
     (if d_isDirectory f \<or> \<not> endsWith (d_name f) ''.json'' then listed_with_status disk st fs
      else (case load_manifest disk (d_path f) of
                None \<Rightarrow> listed_with_status disk st fs
              | Some (item, status) \<Rightarrow>
                  if status = st then item # listed_with_status disk st fs
                  else listed_with_status disk st fs))"
  by (simp add: listed_with_status_def map_filter_Cons split: option.splits)

lemma listed_cong:
  "(\<And>f. f \<in> set fs \<Longrightarrow> load_manifest d1 (d_path f) = load_manifest d2 (d_path f)) \<Longrightarrow>
   listed_with_status d1 st fs = listed_with_status d2 st fs"
proof (induction fs)
  case Nil
  then show ?case by simp
next
  case (Cons a fs)
  have h1: "listed_with_status d1 st fs = listed_with_status d2 st fs" using Cons by simp
  have h2: "load_manifest d1 (d_path a) = load_manifest d2 (d_path a)" using Cons.prems by simp
  show ?case unfolding listed_Cons h1 h2 by (rule refl)
qed

lemma listed_member:
  "item \<in> set (listed_with_status disk st fs) \<longleftrightarrow>
     (\<exists>f \<in> set fs. \<not> d_isDirectory f \<and> endsWith (d_name f) ''.json'' \<and>
         load_manifest disk (d_path f) = Some (item, st))"
  by (induction fs) (auto simp: listed_Cons split: option.splits)

lemma fold_uploaded_step:
  "fold (uploaded_step disk) fs sc = fold take_item (listed_with_status disk ''UPLOADED'' fs) sc"
proof (induction fs arbitrary: sc)
  case Nil
  then show ?case by simp
next
  case (Cons f fs)
  show ?case
    using Cons.IH
    by (simp add: listed_Cons uploaded_step_def d_path_def split: option.splits)
qed

lemma find_oldest_uploaded_pick:
  "sd_ok s \<Longrightarrow> find_oldest_uploaded out0 s =
     (found (fold take_item (manifests_with_status (sd s) ''UPLOADED'') (scan_init out0)),
      out (fold take_item (manifests_with_status (sd s) ''UPLOADED'') (scan_init out0)))"
  by (simp add: find_oldest_uploaded_def fold_uploaded_step manifests_with_status_def Let_def)

lemma scan_init_ok [simp]: "scan_ok (scan_init x)" "\<not> found (scan_init x)" "out (scan_init x) = x"
  by (simp_all add: scan_init_def scan_ok_def)

lemma fold_take_item_member:
  "found (fold take_item cs sc) \<Longrightarrow>
     out (fold take_item cs sc) \<in> set cs \<or> (found sc \<and> out (fold take_item cs sc) = out sc)"
proof (induction cs arbitrary: sc)
  case Nil
  then show ?case by simp
next
  case (Cons c cs)
  from Cons.IH[of "take_item c sc"] Cons.prems
  have "out (fold take_item cs (take_item c sc)) \<in> set cs \<or>
        (found (take_item c sc) \<and> out (fold take_item cs (take_item c sc)) = out (take_item c sc))"
    by simp
  moreover have "take_item c sc = sc \<or> out (take_item c sc) = c"
    by (simp add: take_item_def)
  ultimately show ?case by auto
qed

lemma fold_take_item_found:
  "found (fold take_item cs sc) \<longleftrightarrow> found sc \<or> cs \<noteq> []"
proof (induction cs arbitrary: sc)
  case Nil
  then show ?case by simp
next
  case (Cons c cs)
  then show ?case using take_item_found[of c sc] by simp
qed

subsection \<open>Writing and loading a manifest\<close>

definition load_entry :: "dirent \<Rightarrow> (PendingItem \<times> string) option" where
  "load_entry f = load_manifest \<lparr>manifests = [f], files = []\<rparr> (d_path f)"

lemma load_manifest_entry:
  "SD_open disk p = Some f \<Longrightarrow> load_manifest disk p = load_entry f"
  by (auto simp: load_manifest_def load_entry_def SD_open_def Let_def
      dest: find_Some_iff[THEN iffD1] split: option.splits)

lemma load_entry_doc:
  "load_entry f = Some (item, st) \<Longrightarrow>
     \<exists>doc. \<not> d_isDirectory f \<and> d_doc f = Some doc \<and> seq item = doc_seq doc \<and> st = doc_status doc \<and>
           captured_epoch item = doc_captured_at_epoch doc \<and>
           upload_attempts item = doc_upload_attempts doc \<and>
           last_attempt_epoch item = doc_last_attempt_epoch doc"
  by (auto simp: load_entry_def load_manifest_def SD_open_def Let_def split: option.splits if_splits)

lemma load_manifest_listed:
  "load_manifest disk p = Some (item, st) \<Longrightarrow>
     \<exists>f \<in> set (manifests disk). d_path f = p \<and> load_entry f = Some (item, st)"
proof -
  assume a: "load_manifest disk p = Some (item, st)"
  then obtain f where f: "SD_open disk p = Some f"
    by (auto simp: load_manifest_def split: option.splits)
  then have "f \<in> set (manifests disk)" "d_path f = p"
    by (auto simp: SD_open_def find_Some_iff)
  then show ?thesis using load_manifest_entry[OF f] a by auto
qed

lemma load_manifest_props:
  "load_manifest disk p = Some (item, st) \<Longrightarrow>
     manifest_path item = p \<and> item_type item \<noteq> [] \<and> content_type item \<noteq> []"
  by (auto simp: load_manifest_def Let_def split: option.splits if_splits)

lemma find_filter_app:
  "(\<And>x. P x \<Longrightarrow> Q x) \<Longrightarrow> \<not> P y \<Longrightarrow> find P (filter Q xs @ [y]) = find P xs"
  by (induction xs) auto

lemma find_filter_hit:
  "P y \<Longrightarrow> (\<And>x. P x \<Longrightarrow> \<not> Q x) \<Longrightarrow> find P (filter Q xs @ [y]) = Some y"
  by (induction xs) auto

lemma d_path_eq [simp]: "d_path e = d_path f \<longleftrightarrow> d_name e = d_name f"
  by (simp add: d_path_def)

lemma SD_open_write:
  assumes "sd_ok s"
  shows "SD_open (sd (snd (write_manifest_atomic q fp cap st ity cty a l s))) p =
     (if p = ''/manifests/'' @ manifest_name q
      then Some \<lparr>d_name = manifest_name q, d_isDirectory = False,
             d_doc = Some \<lparr>doc_filepath = fp, doc_seq = q, doc_captured_at_epoch = cap,
                   doc_status = st, doc_item_type = ity, doc_content_type = cty,
                   doc_upload_attempts = a, doc_last_attempt_epoch = l\<rparr>\<rparr>
      else SD_open (sd s) p)"
proof (cases "p = ''/manifests/'' @ manifest_name q")
  case True
  show ?thesis using assms True
    by (simp add: write_manifest_atomic_def Let_def SD_open_def)
       (rule find_filter_hit; simp add: d_path_def)
next
  case False
  show ?thesis using assms False
    by (simp add: write_manifest_atomic_def Let_def SD_open_def)
       (rule find_filter_app; auto simp add: d_path_def)
qed

lemma load_manifest_write:
  assumes "sd_ok s"
  shows "load_manifest (sd (snd (write_manifest_atomic q fp cap st ity cty a l s))) p =
     (if p = ''/manifests/'' @ manifest_name q
      then Some (\<lparr>manifest_path = p, filepath = fp,
                 item_type = (if ity = [] then (if endsWith fp ''.wav'' then ''audio'' else ''photo'') else ity),
                 content_type = (if cty = [] then
                    (if (if ity = [] then (if endsWith fp ''.wav'' then ''audio'' else ''photo'') else ity) = ''audio''
                     then ''audio/wav'' else ''image/jpeg'') else cty),
                 seq = q, captured_epoch = cap, upload_attempts = a, last_attempt_epoch = l\<rparr>, st)
      else load_manifest (sd s) p)"
  unfolding load_manifest_def SD_open_write[OF assms]
  by (simp add: Let_def)

lemma write_manifest_frame:
  "snd (write_manifest_atomic q fp cap st ity cty a l s) =
      s\<lparr>sd := sd (snd (write_manifest_atomic q fp cap st ity cty a l s))\<rparr>
      \<and> files (sd (snd (write_manifest_atomic q fp cap st ity cty a l s))) = files (sd s)"
  by (simp add: write_manifest_atomic_def Let_def)

lemma wf_write:
  "wf_manifests (sd s) \<Longrightarrow>
   wf_manifests (sd (snd (write_manifest_atomic q fp cap st ity cty a l s)))"
  by (auto simp: write_manifest_atomic_def Let_def wf_manifests_def distinct_map_filter
      split: option.splits)

lemma SD_open_member:
  "distinct (map d_name ms) \<Longrightarrow> f \<in> set ms \<Longrightarrow> find (\<lambda>e. d_name e = d_name f) ms = Some f"
proof (induction ms)
  case Nil
  then show ?case by simp
next
  case (Cons a ms)
  then show ?case by (auto simp: image_iff)
qed

lemma SD_open_wf:
  "wf_manifests disk \<Longrightarrow> f \<in> set (manifests disk) \<Longrightarrow> SD_open disk (d_path f) = Some f"
  by (simp add: wf_manifests_def SD_open_def SD_open_member)

subsection \<open>What a scan for PENDING manifests does to the card\<close>

text \<open>
  \<open>scan_effect s s'\<close>: the state \<open>s'\<close> differs from \<open>s\<close> on the card only, the artifacts
  are the same, and a manifest loads as before unless it was PENDING at or over the
  attempt limit and is FAILED now.
\<close>

definition scan_effect :: "fw \<Rightarrow> fw \<Rightarrow> bool" where
  "scan_effect s s' \<longleftrightarrow>
     s' = s\<lparr>sd := sd s'\<rparr> \<and> files (sd s') = files (sd s) \<and>
     (\<forall>p. load_manifest (sd s') p = load_manifest (sd s) p \<or>
          (\<exists>it. load_manifest (sd s) p = Some (it, ''PENDING'') \<and>
                upload_attempts it \<ge> UPLOAD_MAX_ATTEMPTS \<and>
                load_manifest (sd s') p = Some (it, ''FAILED'')))"

lemma scan_effect_refl: "scan_effect s s"
  by (simp add: scan_effect_def)

lemma scan_effect_trans:
  assumes "scan_effect s s1" "scan_effect s1 s2"
  shows "scan_effect s s2"
proof -
  have a: "s1 = s\<lparr>sd := sd s1\<rparr>" "s2 = s1\<lparr>sd := sd s2\<rparr>"
    using assms by (simp_all add: scan_effect_def)
  have "s2 = s\<lparr>sd := sd s1\<rparr>\<lparr>sd := sd s2\<rparr>" using a by simp
  then have 1: "s2 = s\<lparr>sd := sd s2\<rparr>" by simp
  have 2: "files (sd s2) = files (sd s)" using assms by (simp add: scan_effect_def)
  have 3: "load_manifest (sd s2) p = load_manifest (sd s) p \<or>
          (\<exists>it. load_manifest (sd s) p = Some (it, ''PENDING'') \<and>
                upload_attempts it \<ge> UPLOAD_MAX_ATTEMPTS \<and>
                load_manifest (sd s2) p = Some (it, ''FAILED''))" for p
  proof -
    have x: "load_manifest (sd s1) p = load_manifest (sd s) p \<or>
          (\<exists>it. load_manifest (sd s) p = Some (it, ''PENDING'') \<and>
                upload_attempts it \<ge> UPLOAD_MAX_ATTEMPTS \<and>
                load_manifest (sd s1) p = Some (it, ''FAILED''))"
      using assms(1) by (simp add: scan_effect_def)
    have y: "load_manifest (sd s2) p = load_manifest (sd s1) p \<or>
          (\<exists>it. load_manifest (sd s1) p = Some (it, ''PENDING'') \<and>
                upload_attempts it \<ge> UPLOAD_MAX_ATTEMPTS \<and>
                load_manifest (sd s2) p = Some (it, ''FAILED''))"
      using assms(2) by (simp add: scan_effect_def)
    from x y show ?thesis by fastforce
  qed
  show ?thesis unfolding scan_effect_def using 1 2 3 by blast
qed

definition fail_item :: "PendingItem \<Rightarrow> fw \<Rightarrow> fw" where
  "fail_item item s =
     snd (write_manifest_atomic (seq item) (filepath item) (captured_epoch item)
            ''FAILED'' (item_type item) (content_type item)
            (upload_attempts item) (last_attempt_epoch item) s)"

lemma pending_step_cases:
  assumes "wf_manifests (sd s)" "f \<in> set (manifests (sd s))"
  shows "pending_step now f (s, sc) =
     (if d_isDirectory f \<or> \<not> endsWith (d_name f) ''.json'' then (s, sc)
      else case load_entry f of None \<Rightarrow> (s, sc)
        | Some (item, status) \<Rightarrow>
            if status \<noteq> ''PENDING'' then (s, sc)
            else if upload_attempts item \<ge> UPLOAD_MAX_ATTEMPTS then (fail_item item s, sc)
            else if pending_ok now item then (s, take_item item sc) else (s, sc))"
proof -
  have "load_manifest (sd s) (''/manifests/'' @ d_name f) = load_entry f"
    using load_manifest_entry[OF SD_open_wf[OF assms]] by (simp add: d_path_def)
  then show ?thesis
    by (auto simp: pending_step_def fail_item_def pending_ok_def Let_def split: option.splits)
qed

lemma item_rebuild:
  "manifest_path item = p \<Longrightarrow>
   \<lparr>manifest_path = p, filepath = filepath item, item_type = item_type item,
     content_type = content_type item, seq = seq item, captured_epoch = captured_epoch item,
     upload_attempts = upload_attempts item, last_attempt_epoch = last_attempt_epoch item\<rparr> = item"
  by simp

lemma fail_item_effect:
  assumes ok: "sd_ok s" and wf: "wf_manifests (sd s)" and f: "f \<in> set (manifests (sd s))"
    and le: "load_entry f = Some (item, ''PENDING'')" and over: "upload_attempts item \<ge> UPLOAD_MAX_ATTEMPTS"
  shows "scan_effect s (fail_item item s)"
    and "wf_manifests (sd (fail_item item s))"
    and "sd_ok (fail_item item s)"
    and "\<And>g. g \<in> set (manifests (sd s)) \<Longrightarrow> d_name g \<noteq> d_name f \<Longrightarrow>
            g \<in> set (manifests (sd (fail_item item s)))"
proof -
  have lm: "load_manifest (sd s) (d_path f) = Some (item, ''PENDING'')"
    using load_manifest_entry[OF SD_open_wf[OF wf f]] le by simp
  have props: "manifest_path item = d_path f" "item_type item \<noteq> []" "content_type item \<noteq> []"
    using load_manifest_props[OF lm] by auto
  obtain doc where doc: "d_doc f = Some doc" "seq item = doc_seq doc"
    using load_entry_doc[OF le] by auto
  have nm: "d_name f = manifest_name (seq item)"
    using wf f doc by (fastforce simp: wf_manifests_def split: option.splits)
  have pth: "''/manifests/'' @ manifest_name (seq item) = d_path f"
    using nm by (simp add: d_path_def)
  have ld: "load_manifest (sd (fail_item item s)) p =
       (if p = d_path f then Some (item, ''FAILED'') else load_manifest (sd s) p)" for p
    unfolding fail_item_def load_manifest_write[OF ok] pth
    using props item_rebuild[OF props(1)] by simp
  show "scan_effect s (fail_item item s)"
    unfolding scan_effect_def
  proof (intro conjI allI)
    show "fail_item item s = s\<lparr>sd := sd (fail_item item s)\<rparr>"
      unfolding fail_item_def using write_manifest_frame by blast
    show "files (sd (fail_item item s)) = files (sd s)"
      unfolding fail_item_def using write_manifest_frame by blast
    fix p
    show "load_manifest (sd (fail_item item s)) p = load_manifest (sd s) p \<or>
         (\<exists>it. load_manifest (sd s) p = Some (it, ''PENDING'') \<and>
               UPLOAD_MAX_ATTEMPTS \<le> upload_attempts it \<and>
               load_manifest (sd (fail_item item s)) p = Some (it, ''FAILED''))"
      using ld[of p] lm over by auto
  qed
  show "wf_manifests (sd (fail_item item s))"
    unfolding fail_item_def by (rule wf_write[OF wf])
  show "sd_ok (fail_item item s)"
    using ok by (simp add: fail_item_def write_manifest_atomic_def Let_def)
  show "\<And>g. g \<in> set (manifests (sd s)) \<Longrightarrow> d_name g \<noteq> d_name f \<Longrightarrow>
            g \<in> set (manifests (sd (fail_item item s)))"
    using ok nm by (simp add: fail_item_def write_manifest_atomic_def Let_def)
qed

lemma fold_pending_step:
  assumes "sd_ok s" "wf_manifests (sd s)" "set fs \<subseteq> set (manifests (sd s))" "distinct (map d_name fs)"
  shows "\<exists>s'. fold (pending_step now) fs (s, sc) =
            (s', fold take_item (filter (pending_ok now) (listed_with_status (sd s) ''PENDING'' fs)) sc)
          \<and> scan_effect s s' \<and> wf_manifests (sd s') \<and> sd_ok s'"
  using assms
proof (induction fs arbitrary: s sc)
  case Nil
  then show ?case by (simp add: scan_effect_refl)
next
  case (Cons f fs)
  have fin: "f \<in> set (manifests (sd s))" using Cons.prems by simp
  have lm: "load_manifest (sd s) (d_path f) = load_entry f"
    using load_manifest_entry[OF SD_open_wf[OF Cons.prems(2) fin]] .
  note step = pending_step_cases[OF Cons.prems(2) fin, of now sc]
  show ?case
  proof (cases "\<exists>item. \<not> (d_isDirectory f \<or> \<not> endsWith (d_name f) ''.json'') \<and>
                  load_entry f = Some (item, ''PENDING'') \<and> upload_attempts item \<ge> UPLOAD_MAX_ATTEMPTS")
    case True
    then obtain item where it: "\<not> (d_isDirectory f \<or> \<not> endsWith (d_name f) ''.json'')"
        "load_entry f = Some (item, ''PENDING'')" "upload_attempts item \<ge> UPLOAD_MAX_ATTEMPTS"
      by blast
    let ?s1 = "fail_item item s"
    note eff = fail_item_effect[OF Cons.prems(1,2) fin it(2,3)]
    have st: "pending_step now f (s, sc) = (?s1, sc)" using step it by simp
    have sub: "set fs \<subseteq> set (manifests (sd ?s1))"
    proof
      fix g assume g: "g \<in> set fs"
      then have "d_name g \<noteq> d_name f" using Cons.prems(4) by (force simp: image_iff)
      moreover have "g \<in> set (manifests (sd s))" using g Cons.prems(3) by auto
      ultimately show "g \<in> set (manifests (sd ?s1))" using eff(4) by blast
    qed
    from Cons.IH[OF eff(3) eff(2) sub, of sc] Cons.prems(4)
    obtain s' where s': "fold (pending_step now) fs (?s1, sc) =
            (s', fold take_item (filter (pending_ok now) (listed_with_status (sd ?s1) ''PENDING'' fs)) sc)"
          "scan_effect ?s1 s'" "wf_manifests (sd s')" "sd_ok s'" by auto
    have same: "listed_with_status (sd ?s1) ''PENDING'' fs = listed_with_status (sd s) ''PENDING'' fs"
    proof (rule listed_cong)
      fix g assume g: "g \<in> set fs"
      then have ne: "d_name g \<noteq> d_name f" using Cons.prems(4) by (force simp: image_iff)
      have g0: "g \<in> set (manifests (sd s))" using g Cons.prems(3) by auto
      have g1: "g \<in> set (manifests (sd ?s1))" using eff(4)[OF g0 ne] .
      show "load_manifest (sd ?s1) (d_path g) = load_manifest (sd s) (d_path g)"
        using load_manifest_entry[OF SD_open_wf[OF eff(2) g1]]
              load_manifest_entry[OF SD_open_wf[OF Cons.prems(2) g0]] by simp
    qed
    have c: "filter (pending_ok now) (listed_with_status (sd s) ''PENDING'' (f # fs)) =
             filter (pending_ok now) (listed_with_status (sd s) ''PENDING'' fs)"
      using it lm by (simp add: listed_Cons pending_ok_def)
    show ?thesis
      using st s' same c scan_effect_trans[OF eff(1) s'(2)] by auto
  next
    case False
    let ?sc1 = "fold take_item (filter (pending_ok now) (listed_with_status (sd s) ''PENDING'' [f])) sc"
    have st: "pending_step now f (s, sc) = (s, ?sc1)"
      using step False lm
      by (auto simp: listed_Cons pending_ok_def split: option.splits)
    from Cons.IH[OF Cons.prems(1,2), of ?sc1] Cons.prems(3,4)
    obtain s' where s': "fold (pending_step now) fs (s, ?sc1) =
            (s', fold take_item (filter (pending_ok now) (listed_with_status (sd s) ''PENDING'' fs)) ?sc1)"
          "scan_effect s s'" "wf_manifests (sd s')" "sd_ok s'" by auto
    have c: "listed_with_status (sd s) ''PENDING'' (f # fs) =
             listed_with_status (sd s) ''PENDING'' [f] @ listed_with_status (sd s) ''PENDING'' fs"
      by (simp add: listed_Cons split: option.splits)
    show ?thesis using st s' c by simp
  qed
qed

lemma find_oldest_pending_pick:
  assumes "sd_ok s" "wf_manifests (sd s)"
  shows "\<exists>s'. find_oldest_pending now out0 s =
            ((found (fold take_item (pending_candidates now (sd s)) (scan_init out0)),
              out (fold take_item (pending_candidates now (sd s)) (scan_init out0))), s')
          \<and> scan_effect s s' \<and> wf_manifests (sd s') \<and> sd_ok s'"
proof -
  have d: "distinct (map d_name (manifests (sd s)))" using assms(2) by (simp add: wf_manifests_def)
  from fold_pending_step[OF assms subset_refl d, of now "scan_init out0"]
  obtain s' where s': "fold (pending_step now) (manifests (sd s)) (s, scan_init out0) =
        (s', fold take_item (pending_candidates now (sd s)) (scan_init out0))"
      "scan_effect s s'" "wf_manifests (sd s')" "sd_ok s'"
    by (auto simp: pending_candidates_def manifests_with_status_def)
  show ?thesis using assms(1) s' by (simp add: find_oldest_pending_def)
qed

subsection \<open>Unsigned manifests, and the test for backoff\<close>

lemma unsigned_listed:
  assumes "unsigned_manifests disk" "c \<in> set (manifests_with_status disk st)"
  shows "0 \<le> captured_epoch c \<and> 0 \<le> upload_attempts c \<and> 0 \<le> last_attempt_epoch c"
proof -
  obtain f where f: "f \<in> set (manifests disk)" "load_manifest disk (d_path f) = Some (c, st)"
    using assms(2) by (auto simp: manifests_with_status_def listed_member)
  obtain g where g: "g \<in> set (manifests disk)" "load_entry g = Some (c, st)"
    using load_manifest_listed[OF f(2)] by blast
  obtain doc where doc: "d_doc g = Some doc" "captured_epoch c = doc_captured_at_epoch doc"
      "upload_attempts c = doc_upload_attempts doc" "last_attempt_epoch c = doc_last_attempt_epoch doc"
    using load_entry_doc[OF g(2)] by auto
  have "0 \<le> doc_captured_at_epoch doc \<and> 0 \<le> doc_upload_attempts doc \<and> 0 \<le> doc_last_attempt_epoch doc"
    using assms(1) g(1) doc(1) by (fastforce simp: unsigned_manifests_def split: option.splits)
  then show ?thesis using doc by simp
qed

lemma backoff_values:
  "backoff_seconds 1 = 60" "backoff_seconds 2 = 300" "3 \<le> n \<Longrightarrow> backoff_seconds n = 1800"
  by (simp_all add: backoff_seconds_def UPLOAD_BACKOFF_SEC_1_def UPLOAD_BACKOFF_SEC_2_def
      UPLOAD_BACKOFF_SEC_3_def)

lemma pending_ok_eligible:
  "0 \<le> upload_attempts c \<Longrightarrow>
   pending_ok now c \<longleftrightarrow> upload_attempts c < UPLOAD_MAX_ATTEMPTS \<and> eligible now c"
  by (auto simp: pending_ok_def eligible_def backoff_seconds_def UPLOAD_BACKOFF_SEC_1_def
      UPLOAD_BACKOFF_SEC_2_def UPLOAD_BACKOFF_SEC_3_def)

lemma pick_minimum:
  assumes "\<forall>c \<in> set cs. 0 \<le> captured_epoch c"
  shows "(found (fold take_item cs (scan_init out0)) \<longleftrightarrow> cs \<noteq> []) \<and>
         (found (fold take_item cs (scan_init out0)) \<longrightarrow>
            out (fold take_item cs (scan_init out0)) \<in> set cs \<and>
            (\<forall>c \<in> set cs. \<not> older c (out (fold take_item cs (scan_init out0)))))"
  using fold_take_item[OF assms, of "scan_init out0"] by simp

subsection \<open>One call of the upload engine\<close>


















subsection \<open>The retention loop\<close>

lemma SD_open_remove:
  "SD_open (SD_remove q d) p = (if p = q then None else SD_open d p)"
proof -
  have "find (\<lambda>e. d_path e = p) (filter (\<lambda>e. d_path e \<noteq> q) xs) =
        (if p = q then None else find (\<lambda>e. d_path e = p) xs)" for xs
    by (induction xs) (auto simp: d_path_def)
  then show ?thesis by (simp add: SD_open_def SD_remove_def)
qed

lemma load_manifest_remove:
  "load_manifest (SD_remove q d) p = (if p = q then None else load_manifest d p)"
  by (simp add: load_manifest_def SD_open_remove)

lemma listed_remove_subset:
  "set (listed_with_status (SD_remove q d) st (filter P fs)) \<subseteq> set (listed_with_status d st fs)"
  by (auto simp: listed_member load_manifest_remove split: if_splits)

lemma mws_remove_subset:
  "set (manifests_with_status (SD_remove q d) st) \<subseteq> set (manifests_with_status d st)"
  unfolding manifests_with_status_def
  using listed_remove_subset[of q d st "\<lambda>e. d_path e \<noteq> q" "manifests d"]
  by (simp add: SD_remove_def)

lemma remove_item_frame:
  "sd_ok (remove_item item s) = sd_ok s"
  "capture_paused (remove_item item s) = capture_paused s"
  by (simp_all add: remove_item_def Let_def)

lemma mws_remove_item_subset:
  "set (manifests_with_status (sd (remove_item item s)) st) \<subseteq> set (manifests_with_status (sd s) st)"
  using mws_remove_subset[of "filepath item" "sd s" st]
        mws_remove_subset[of "manifest_path item" "sd s" st]
        mws_remove_subset[of "manifest_path item" "SD_remove (filepath item) (sd s)" st]
  by (auto simp: remove_item_def Let_def)

lemma unsigned_remove:
  "unsigned_manifests d \<Longrightarrow> unsigned_manifests (SD_remove q d)"
  by (simp add: unsigned_manifests_def SD_remove_def)

lemma unsigned_remove_item:
  "unsigned_manifests (sd s) \<Longrightarrow> unsigned_manifests (sd (remove_item item s))"
  by (simp add: remove_item_def Let_def unsigned_remove)

lemma fold_remove_frame:
  "sd_ok (fold remove_item ds s) = sd_ok s"
  by (induction ds arbitrary: s) (simp_all add: remove_item_frame)

lemma mws_fold_remove_subset:
  "set (manifests_with_status (sd (fold remove_item ds s)) st) \<subseteq> set (manifests_with_status (sd s) st)"
proof (induction ds arbitrary: s)
  case Nil
  then show ?case by simp
next
  case (Cons d ds)
  show ?case using Cons.IH[of "remove_item d s"] mws_remove_item_subset[of d s st] by auto
qed

lemma oldest_uploaded_minimum:
  assumes "sd_ok s" "unsigned_manifests (sd s)" "find_oldest_uploaded out0 s = (True, item)"
  shows "\<forall>c \<in> set (manifests_with_status (sd s) ''UPLOADED''). \<not> older c item"
proof -
  have u: "\<forall>c \<in> set (manifests_with_status (sd s) ''UPLOADED''). 0 \<le> captured_epoch c"
    using unsigned_listed[OF assms(2)] by blast
  show ?thesis
    using pick_minimum[OF u, of out0] assms(3) unfolding find_oldest_uploaded_pick[OF assms(1)]
    by simp
qed

lemma oldest_uploaded_member:
  assumes "sd_ok s" "find_oldest_uploaded out0 s = (True, item)"
  shows "item \<in> set (manifests_with_status (sd s) ''UPLOADED'')"
  using assms(2) fold_take_item_member[of "manifests_with_status (sd s) ''UPLOADED''" "scan_init out0"]
  unfolding find_oldest_uploaded_pick[OF assms(1)] by simp

lemma oldest_uploaded_none:
  assumes "sd_ok s" "fst (find_oldest_uploaded out0 s) = False"
  shows "manifests_with_status (sd s) ''UPLOADED'' = []"
  using assms(2) fold_take_item_found[of "manifests_with_status (sd s) ''UPLOADED''" "scan_init out0"]
  unfolding find_oldest_uploaded_pick[OF assms(1)] by simp

lemma retention_loop_props:
  assumes "sd_ok s" "retention_loop T U s fp del = (s', fp', del')"
  shows "\<exists>new. del' = del @ new \<and> s' = fold remove_item new s \<and>
       (fp' \<ge> SD_MIN_FREE_PERCENT \<or> manifests_with_status (sd s') ''UPLOADED'' = []) \<and>
       fp' = (if new = [] then fp else free_percent (T (sd s')) (U (sd s'))) \<and>
       set new \<subseteq> set (manifests_with_status (sd s) ''UPLOADED'') \<and>
       (unsigned_manifests (sd s) \<longrightarrow> oldest_first new \<and>
          (\<forall>r \<in> set (manifests_with_status (sd s') ''UPLOADED''). \<forall>d \<in> set new. \<not> older r d))"
  using assms
proof (induction T U s fp del arbitrary: s' fp' del' rule: retention_loop.induct)
  case (1 T U s fp del)
  show ?case
  proof (cases "fp < SD_MIN_FREE_PERCENT")
    case False
    then have "s' = s" "fp' = fp" "del' = del"
      using "1.prems"(2) by (simp_all add: retention_loop.simps[of T U s fp del])
    then show ?thesis using False by (intro exI[of _ "[]"]) (simp add: not_less)
  next
    case True
    obtain fnd item where fo: "find_oldest_uploaded PendingItem_init s = (fnd, item)"
      by (cases "find_oldest_uploaded PendingItem_init s") auto
    show ?thesis
    proof (cases fnd)
      case False
      then have "s' = s" "fp' = fp" "del' = del"
        using "1.prems"(2) True fo by (simp_all add: retention_loop.simps[of T U s fp del])
      moreover have "manifests_with_status (sd s) ''UPLOADED'' = []"
        using oldest_uploaded_none[OF "1.prems"(1), of PendingItem_init] fo False by simp
      ultimately show ?thesis by (intro exI[of _ "[]"]) simp
    next
      case T: True
      define s1 where "s1 = remove_item item s"
      have fo': "find_oldest_uploaded PendingItem_init s = (True, item)" using fo T by simp
      have rec: "retention_loop T U s1 (free_percent (T (sd s1)) (U (sd s1))) (del @ [item]) = (s', fp', del')"
        using "1.prems"(2) True fo' by (simp add: retention_loop.simps[of T U s fp del] s1_def Let_def)
      have ok1: "sd_ok s1" using "1.prems"(1) by (simp add: s1_def remove_item_frame)
      from "1.IH"[OF True fo'[symmetric] refl s1_def ok1 rec]
      obtain new1 where n1: "del' = (del @ [item]) @ new1" "s' = fold remove_item new1 s1"
         "fp' \<ge> SD_MIN_FREE_PERCENT \<or> manifests_with_status (sd s') ''UPLOADED'' = []"
         "fp' = (if new1 = [] then free_percent (T (sd s1)) (U (sd s1)) else free_percent (T (sd s')) (U (sd s')))"
         "set new1 \<subseteq> set (manifests_with_status (sd s1) ''UPLOADED'')"
         "unsigned_manifests (sd s1) \<longrightarrow> oldest_first new1 \<and>
          (\<forall>r \<in> set (manifests_with_status (sd s') ''UPLOADED''). \<forall>d \<in> set new1. \<not> older r d)"
        by auto
      have sub1: "set (manifests_with_status (sd s1) ''UPLOADED'') \<subseteq> set (manifests_with_status (sd s) ''UPLOADED'')"
        unfolding s1_def by (rule mws_remove_item_subset)
      have sub2: "set (manifests_with_status (sd s') ''UPLOADED'') \<subseteq> set (manifests_with_status (sd s1) ''UPLOADED'')"
        unfolding n1(2) by (rule mws_fold_remove_subset)
      have mem: "item \<in> set (manifests_with_status (sd s) ''UPLOADED'')"
        using oldest_uploaded_member[OF "1.prems"(1) fo'] .
      have fp: "fp' = free_percent (T (sd s')) (U (sd s'))"
        using n1(4) n1(2) by (cases "new1 = []") simp_all
      have ord: "oldest_first (item # new1) \<and>
          (\<forall>r \<in> set (manifests_with_status (sd s') ''UPLOADED''). \<forall>d \<in> set (item # new1). \<not> older r d)"
        if u: "unsigned_manifests (sd s)"
      proof -
        have u1: "unsigned_manifests (sd s1)" unfolding s1_def using u by (rule unsigned_remove_item)
        note mn = oldest_uploaded_minimum[OF "1.prems"(1) u fo']
        have "\<forall>x \<in> set new1. \<not> older x item" using mn n1(5) sub1 by blast
        moreover have "\<forall>r \<in> set (manifests_with_status (sd s') ''UPLOADED''). \<not> older r item"
          using mn sub1 sub2 by blast
        ultimately show ?thesis using n1(6) u1 by simp
      qed
      show ?thesis
        apply (intro exI[of _ "item # new1"])
        using n1(1,2,3,5) fp sub1 mem ord by (auto simp: s1_def)
    qed
  qed
qed


lemma SD_exists_remove:
  "SD_exists (SD_remove q d) p \<longleftrightarrow> p \<noteq> q \<and> SD_exists d p"
  by (auto simp: SD_exists_def SD_remove_def)

lemma SD_exists_remove_item:
  "SD_exists (sd (remove_item d s)) p \<longleftrightarrow>
     SD_exists (sd s) p \<and> p \<noteq> filepath d \<and> p \<noteq> manifest_path d"
  by (auto simp: remove_item_def Let_def SD_exists_remove)

lemma SD_exists_fold_remove:
  "SD_exists (sd (fold remove_item ds s)) p \<longleftrightarrow>
     SD_exists (sd s) p \<and> (\<forall>d \<in> set ds. p \<noteq> filepath d \<and> p \<noteq> manifest_path d)"
  by (induction ds arbitrary: s) (auto simp: SD_exists_remove_item)

lemma min_free_not_emergency:
  "SD_MIN_FREE_PERCENT \<le> fp \<Longrightarrow> \<not> fp < SD_EMERGENCY_FREE_PERCENT"
  by (simp add: SD_MIN_FREE_PERCENT_def SD_EMERGENCY_FREE_PERCENT_def word_le_nat_alt
      word_less_nat_alt)

subsection \<open>Audio\<close>

lemma card_only_refl: "card_only s s"
  unfolding card_only_def by (rule exI[of _ "sd s"]) simp

lemma card_only_trans: "card_only s s1 \<Longrightarrow> card_only s1 s2 \<Longrightarrow> card_only s s2"
  unfolding card_only_def by auto

lemma card_only_upd: "card_only s (s\<lparr>sd := d\<rparr>)"
  unfolding card_only_def by blast

lemma card_only_fields:
  assumes "card_only s s'"
  shows "audio_recording s' = audio_recording s"
    and "audio_photo_clip_pending s' = audio_photo_clip_pending s"
    and "audio_heartbeat_pending s' = audio_heartbeat_pending s"
    and "audio_photo_clip_epoch s' = audio_photo_clip_epoch s"
    and "sd_ok s' = sd_ok s" and "wifi_ok s' = wifi_ok s" and "audio_ok s' = audio_ok s"
  using assms unfolding card_only_def by auto

lemma write_manifest_card_only:
  "card_only s (snd (write_manifest_atomic q fp cap st ity cty a l s))"
  by (simp add: write_manifest_atomic_def Let_def card_only_refl card_only_upd)

lemma pending_step_card_only:
  "card_only s (fst (pending_step now f (s, sc)))"
  by (auto simp: pending_step_def Let_def card_only_refl write_manifest_card_only
      split: option.splits)

lemma fold_pending_step_card_only:
  "card_only s (fst (fold (pending_step now) fs (s, sc)))"
proof (induction fs arbitrary: s sc)
  case Nil
  then show ?case by (simp add: card_only_refl)
next
  case (Cons f fs)
  obtain s1 sc1 where st: "pending_step now f (s, sc) = (s1, sc1)" by (metis prod.exhaust)
  have "card_only s s1" using pending_step_card_only[of s now f sc] st by simp
  moreover have "card_only s1 (fst (fold (pending_step now) fs (s1, sc1)))" by (rule Cons.IH)
  ultimately show ?case using st by (simp add: card_only_trans)
qed

lemma find_oldest_pending_card_only:
  "card_only s (snd (find_oldest_pending now out0 s))"
  using fold_pending_step_card_only[of s now "manifests (sd s)" "scan_init out0"]
  by (simp add: find_oldest_pending_def card_only_refl split_beta Let_def)

lemma update_status_card_only:
  "card_only s (update_manifest_status item st a l s)"
  unfolding update_manifest_status_def by (rule write_manifest_card_only)

lemma upload_one_pending_card_only:
  "card_only s (snd (upload_one_pending e s))"
proof -
  obtain fnd item s1 where f: "find_oldest_pending (u_now e) PendingItem_init s = ((fnd, item), s1)"
    by (metis prod.exhaust)
  have c1: "card_only s s1" using find_oldest_pending_card_only[of s "u_now e" PendingItem_init] f by simp
  have c2: "card_only s (update_manifest_status item st2 a2 l2 (update_manifest_status item st a l s1))"
    for st a l st2 a2 l2
    using c1 update_status_card_only card_only_trans by blast
  show ?thesis
    using c1 c2 f by (cases fnd) (simp_all add: upload_one_pending_def Let_def card_only_refl)
qed

lemma upload_batch_loop_card_only:
  "card_only s (upload_batch_loop n i env s)"
proof (induction n arbitrary: i s)
  case 0
  then show ?case by (simp add: card_only_refl)
next
  case (Suc n)
  obtain ok s1 where u: "upload_one_pending (env i) s = (ok, s1)" by (metis prod.exhaust)
  have "card_only s s1" using upload_one_pending_card_only[of s "env i"] u by simp
  then show ?case using u Suc.IH[of s1 "Suc i"] by (cases ok) (auto intro: card_only_trans)
qed

lemma upload_batch_card_only: "card_only s (upload_batch env s)"
  unfolding upload_batch_def by (rule upload_batch_loop_card_only)

lemma remove_item_card_only: "card_only s (remove_item item s)"
proof -
  have a: "card_only s (if c then s\<lparr>sd := d\<rparr> else s)" for c d
    by (simp add: card_only_refl card_only_upd)
  have b: "card_only t (if c then t\<lparr>sd := d\<rparr> else t)" for c d t
    by (simp add: card_only_refl card_only_upd)
  show ?thesis
    unfolding remove_item_def Let_def by (rule card_only_trans[OF a b])
qed

lemma fold_remove_card_only: "card_only s (fold remove_item ds s)"
proof (induction ds arbitrary: s)
  case Nil
  then show ?case by (simp add: card_only_refl)
next
  case (Cons d ds)
  show ?case using Cons.IH[of "remove_item d s"] remove_item_card_only[of s d]
    by (simp add: card_only_trans)
qed

lemma finish_flags:
  "audio_photo_clip_pending (finish_audio_recording k s) = audio_photo_clip_pending s"
  "audio_heartbeat_pending (finish_audio_recording k s) = audio_heartbeat_pending s"
  by (simp_all add: finish_audio_recording_def Let_def write_manifest_atomic_def)

lemma finish_idle: "\<not> audio_recording (finish_audio_recording k s)"
  by (simp add: finish_audio_recording_def Let_def)

lemma finish_drop_card:
  "sd (finish_audio_recording False s) = sd s \<or>
   sd (finish_audio_recording False s) = SD_remove (audio_filepath s) (sd s)"
  by (simp add: finish_audio_recording_def Let_def)

lemma finish_card:
  "sd (finish_audio_recording k s) = sd s \<or>
   sd (finish_audio_recording k s) = SD_remove (audio_filepath s) (sd s) \<or>
   sd (finish_audio_recording k s) =
     sd (snd (write_manifest_atomic (audio_seq s) (audio_filepath s) (audio_start_epoch s)
                ''PENDING'' ''audio'' ''audio/wav'' 0 0 s))"
  by (simp add: finish_audio_recording_def Let_def write_manifest_atomic_def)

lemma write_frame_fields:
  "audio_photo_clip_pending (snd (write_audio_frame e c s)) = audio_photo_clip_pending s"
  "audio_heartbeat_pending (snd (write_audio_frame e c s)) = audio_heartbeat_pending s"
  "audio_recording (snd (write_audio_frame e c s)) = audio_recording s"
  "audio_seq (snd (write_audio_frame e c s)) = audio_seq s"
  "audio_start_epoch (snd (write_audio_frame e c s)) = audio_start_epoch s"
  "audio_filepath (snd (write_audio_frame e c s)) = audio_filepath s"
  "sd (snd (write_audio_frame e c s)) = sd s"
  "sd_ok (snd (write_audio_frame e c s)) = sd_ok s"
  "audio_ok (snd (write_audio_frame e c s)) = audio_ok s"
  "audio_force_active (snd (write_audio_frame e c s)) = audio_force_active s"
  by (simp_all add: write_audio_frame_def)

lemma start_flags:
  "audio_photo_clip_pending (snd (start_audio_recording e c ep f s)) = audio_photo_clip_pending s"
  "audio_heartbeat_pending (snd (start_audio_recording e c ep f s)) = audio_heartbeat_pending s"
  by (simp_all add: start_audio_recording_def get_next_seq_def Let_def write_audio_frame_def
      finish_flags)

lemma start_fails:
  assumes "\<not> audio_recording s"
    and "\<not> sd_ok s \<or> capture_paused s \<or> \<not> a_folder_ok e \<or> \<not> a_open_ok e"
  shows "\<not> fst (start_audio_recording e c ep f s)"
    and "\<not> audio_recording (snd (start_audio_recording e c ep f s))"
    and "sd (snd (start_audio_recording e c ep f s)) = sd s"
  using assms
  by (auto simp: start_audio_recording_def get_next_seq_def Let_def ensure_audio_folder_def)

lemma start_result:
  assumes "\<not> audio_recording s"
  shows "audio_recording (snd (start_audio_recording e c ep f s)) \<longleftrightarrow>
           fst (start_audio_recording e c ep f s)"
    and "fst (start_audio_recording e c ep f s) \<longrightarrow>
           audio_start_epoch (snd (start_audio_recording e c ep f s)) =
             adjust_start_epoch (if ep > 0 then ep else a_now e) \<and>
           audio_seq (snd (start_audio_recording e c ep f s)) = prefs_seq s \<and>
           audio_force_active (snd (start_audio_recording e c ep f s)) = (f > 0) \<and>
           audio_force_stop_samples (snd (start_audio_recording e c ep f s)) = f \<and>
           sd_ok (snd (start_audio_recording e c ep f s))"
  using assms
  by (auto simp: start_audio_recording_def get_next_seq_def Let_def ensure_audio_folder_def
      write_audio_frame_def finish_idle)

lemma preroll_push_fields:
  "audio_photo_clip_pending (preroll_push c s) = audio_photo_clip_pending s"
  "audio_heartbeat_pending (preroll_push c s) = audio_heartbeat_pending s"
  "audio_recording (preroll_push c s) = audio_recording s"
  by (simp_all add: preroll_push_def)

lemma audio_tick_skip:
  "\<not> audio_ok s \<or> \<not> a_i2s_ok e \<or> a_sample_count e = 0 \<Longrightarrow> audio_tick e s = s"
  by (auto simp: audio_tick_def Let_def)

lemma audio_tick_photo:
  assumes "audio_ok s" "a_i2s_ok e" "0 < a_sample_count e" "\<not> audio_recording s"
    "audio_photo_clip_pending s"
  shows "audio_tick e s =
     snd (start_audio_recording e (a_sample_count e) (audio_photo_clip_epoch s)
            (kAudioPrerollSamples + ms_to_samples AUDIO_PHOTO_CLIP_POST_MS)
            (s\<lparr>audio_photo_clip_pending := False\<rparr>))"
  using assms by (simp add: audio_tick_def Let_def)

lemma audio_tick_heartbeat:
  assumes "audio_ok s" "a_i2s_ok e" "0 < a_sample_count e" "\<not> audio_recording s"
    "\<not> audio_photo_clip_pending s" "audio_heartbeat_pending s"
  shows "audio_tick e s =
     snd (start_audio_recording e (a_sample_count e) (a_now e)
            (kAudioPrerollSamples + ms_to_samples AUDIO_HEARTBEAT_DURATION_MS)
            (s\<lparr>audio_heartbeat_pending := False\<rparr>))"
  using assms by (simp add: audio_tick_def Let_def)

lemma audio_tick_vad:
  assumes "audio_ok s" "a_i2s_ok e" "0 < a_sample_count e" "\<not> audio_recording s"
    "\<not> audio_photo_clip_pending s" "\<not> audio_heartbeat_pending s"
  shows "\<exists>s4. clip_eq s s4 \<and>
     (audio_tick e s = s4 \<or>
      audio_tick e s = snd (start_audio_recording e (a_sample_count e) (a_now e) 0 s4) \<or>
      audio_tick e s = (snd (start_audio_recording e (a_sample_count e) (a_now e) 0 s4))\<lparr>vad_over_count := 0\<rparr>)"
proof -
  define s2 where "s2 = preroll_push (a_sample_count e) s"
  define s3 where "s3 = (if noise_rms s2 \<le> 1 then s2\<lparr>noise_rms := a_rms e\<rparr>
                                  else if a_rms e < noise_rms s2 * AUDIO_NOISE_UPDATE_MAX_MULT then
                                    s2\<lparr>noise_rms := noise_rms s2 * (1 - AUDIO_NOISE_EMA_ALPHA)
                                                      + a_rms e * AUDIO_NOISE_EMA_ALPHA\<rparr>
                                  else s2)"
  define s4 where "s4 = (if a_rms e > noise_rms s3 * AUDIO_RMS_START_MULT
                                  then s3\<lparr>vad_over_count := vad_over_count s3 + 1\<rparr>
                                  else s3\<lparr>vad_over_count := 0\<rparr>)"
  have t: "audio_tick e s =
       (if vad_over_count s4 \<ge> AUDIO_VAD_START_FRAMES then
                             (case start_audio_recording e (a_sample_count e) (a_now e) 0 s4 of
                                (True, s5) \<Rightarrow> s5\<lparr>vad_over_count := 0\<rparr>
                              | (False, s5) \<Rightarrow> s5)
                           else s4)"
    using assms unfolding s4_def s3_def s2_def by (simp add: audio_tick_def Let_def)
  have c2: "clip_eq s s2" by (simp add: s2_def clip_eq_def preroll_push_def)
  have c3: "clip_eq s s3" using c2 by (simp add: s3_def clip_eq_def)
  have c4: "clip_eq s s4" using c3 by (simp add: s4_def clip_eq_def)
  obtain ok s5 where st: "start_audio_recording e (a_sample_count e) (a_now e) 0 s4 = (ok, s5)"
    by (metis prod.exhaust)
  show ?thesis
    apply (rule exI[of _ s4])
    using c4 t st by (cases ok) auto
qed

lemma audio_tick_rec:
  assumes "audio_recording s"
  shows "\<exists>s1 k. clip_eq s s1 \<and>
     (audio_tick e s = s1 \<or> audio_tick e s = finish_audio_recording k s1)"
proof (cases "\<not> audio_ok s \<or> \<not> a_i2s_ok e \<or> a_sample_count e = 0")
  case True
  then have "audio_tick e s = s" by (rule audio_tick_skip)
  moreover have "clip_eq s s" by (simp add: clip_eq_def)
  ultimately show ?thesis by blast
next
  case False
  obtain ok s1 where w: "write_audio_frame e (a_sample_count e) s = (ok, s1)"
    by (metis prod.exhaust)
  have c1: "clip_eq s s1"
    using write_frame_fields[of e "a_sample_count e" s] w by (simp add: clip_eq_def)
  define s2 where "s2 = (if a_rms e < noise_rms s1 * AUDIO_RMS_STOP_MULT
                                   then s1\<lparr>vad_under_count := vad_under_count s1 + 1\<rparr>
                                   else s1\<lparr>vad_under_count := 0\<rparr>)"
  have c2: "clip_eq s s2" using c1 by (simp add: s2_def clip_eq_def)
  have t: "audio_tick e s =
      (if \<not> ok then finish_audio_recording False s1
       else if audio_force_active s1 then
                         (if audio_force_stop_samples s1 > 0 \<and>
                             audio_samples_written s1 \<ge> audio_force_stop_samples s1
                          then finish_audio_recording True s1 else s1)
       else if vad_under_count s2 \<ge> AUDIO_VAD_STOP_FRAMES \<or>
                               real (audio_samples_written s2) / real AUDIO_SAMPLE_RATE \<ge> real AUDIO_MAX_SEC
                            then finish_audio_recording True s2 else s2)"
    using False assms w unfolding s2_def by (cases ok) (simp_all add: audio_tick_def Let_def)
  show ?thesis using t c1 c2 by metis
qed

lemma audio_tick_no_raise:
  "audio_photo_clip_pending (audio_tick e s) \<longrightarrow> audio_photo_clip_pending s"
  "audio_heartbeat_pending (audio_tick e s) \<longrightarrow> audio_heartbeat_pending s"
proof -
  have "(audio_photo_clip_pending (audio_tick e s) \<longrightarrow> audio_photo_clip_pending s) \<and>
        (audio_heartbeat_pending (audio_tick e s) \<longrightarrow> audio_heartbeat_pending s)"
  proof (cases "\<not> audio_ok s \<or> \<not> a_i2s_ok e \<or> a_sample_count e = 0")
    case True
    then show ?thesis using audio_tick_skip[of s e] by simp
  next
    case F: False
    show ?thesis
    proof (cases "audio_recording s")
      case True
      obtain s1 k where "clip_eq s s1" "audio_tick e s = s1 \<or> audio_tick e s = finish_audio_recording k s1"
        using audio_tick_rec[OF True, of e] by blast
      then show ?thesis by (auto simp: clip_eq_def finish_flags)
    next
      case idle: False
      show ?thesis
      proof (cases "audio_photo_clip_pending s")
        case True
        then show ?thesis using audio_tick_photo[of s e] F idle by (simp add: start_flags)
      next
        case np: False
        show ?thesis
        proof (cases "audio_heartbeat_pending s")
          case True
          then show ?thesis using audio_tick_heartbeat[of s e] F idle np by (simp add: start_flags)
        next
          case False
          obtain s4 where "clip_eq s s4"
            "audio_tick e s = s4 \<or>
             audio_tick e s = snd (start_audio_recording e (a_sample_count e) (a_now e) 0 s4) \<or>
             audio_tick e s = (snd (start_audio_recording e (a_sample_count e) (a_now e) 0 s4))\<lparr>vad_over_count := 0\<rparr>"
            using audio_tick_vad[of s e] F idle np False by blast
          then show ?thesis by (auto simp: clip_eq_def start_flags)
        qed
      qed
    qed
  qed
  then show "audio_photo_clip_pending (audio_tick e s) \<longrightarrow> audio_photo_clip_pending s"
    "audio_heartbeat_pending (audio_tick e s) \<longrightarrow> audio_heartbeat_pending s" by simp_all
qed

lemma audio_ticks_no_raise:
  "audio_photo_clip_pending (audio_ticks es s) \<longrightarrow> audio_photo_clip_pending s"
  "audio_heartbeat_pending (audio_ticks es s) \<longrightarrow> audio_heartbeat_pending s"
proof -
  have "(audio_photo_clip_pending (fold audio_tick es s) \<longrightarrow> audio_photo_clip_pending s) \<and>
        (audio_heartbeat_pending (fold audio_tick es s) \<longrightarrow> audio_heartbeat_pending s)"
  proof (induction es arbitrary: s)
    case Nil
    then show ?case by simp
  next
    case (Cons e es)
    show ?case using Cons.IH[of "audio_tick e s"] audio_tick_no_raise[of e s] by simp
  qed
  then show "audio_photo_clip_pending (audio_ticks es s) \<longrightarrow> audio_photo_clip_pending s"
    "audio_heartbeat_pending (audio_ticks es s) \<longrightarrow> audio_heartbeat_pending s"
    by (simp_all add: audio_ticks_def)
qed

lemma audio_tick_unforced:
  assumes "unforced s"
  shows "unforced (audio_tick e s)"
proof (cases "\<not> audio_ok s \<or> \<not> a_i2s_ok e \<or> a_sample_count e = 0")
  case True
  then show ?thesis using audio_tick_skip[of s e] assms by simp
next
  case F: False
  show ?thesis
  proof (cases "audio_recording s")
    case True
    obtain s1 k where "clip_eq s s1" "audio_tick e s = s1 \<or> audio_tick e s = finish_audio_recording k s1"
      using audio_tick_rec[OF True, of e] by blast
    then show ?thesis using assms by (auto simp: clip_eq_def finish_flags finish_idle unforced_def)
  next
    case idle: False
    obtain s4 where s4: "clip_eq s s4"
            "audio_tick e s = s4 \<or>
             audio_tick e s = snd (start_audio_recording e (a_sample_count e) (a_now e) 0 s4) \<or>
             audio_tick e s = (snd (start_audio_recording e (a_sample_count e) (a_now e) 0 s4))\<lparr>vad_over_count := 0\<rparr>"
      using audio_tick_vad[of s e] F idle assms by (auto simp: unforced_def)
    have i4: "\<not> audio_recording s4" using s4(1) idle by (simp add: clip_eq_def)
    note sr = start_result[OF i4, of e "a_sample_count e" "a_now e" 0]
    have u4: "unforced s4" using s4(1) assms by (simp add: clip_eq_def unforced_def)
    have "unforced (snd (start_audio_recording e (a_sample_count e) (a_now e) 0 s4))"
      using sr u4 by (auto simp: unforced_def start_flags)
    then show ?thesis using s4(2) u4 by (auto simp: unforced_def)
  qed
qed

lemma audio_ticks_unforced: "unforced s \<Longrightarrow> unforced (audio_ticks es s)"
  unfolding audio_ticks_def
  by (induction es arbitrary: s) (simp_all add: audio_tick_unforced)

lemma write_manifest_card_cong:
  "sd s1 = sd s \<Longrightarrow> sd_ok s1 = sd_ok s \<Longrightarrow>
   sd (snd (write_manifest_atomic q fp cap st ity cty a l s1)) =
   sd (snd (write_manifest_atomic q fp cap st ity cty a l s))"
  by (simp add: write_manifest_atomic_def Let_def)

lemma clip_over_cong:
  "clip_eq s s1 \<Longrightarrow> clip_over s1 t \<Longrightarrow> clip_over s t"
  unfolding clip_over_def clip_eq_def
  using write_manifest_card_cong[of s1 s "audio_seq s" "audio_filepath s" "audio_start_epoch s"
          "''PENDING''" "''audio''" "''audio/wav''" 0 0]
  by auto

lemma record_ticks_idle: "\<not> audio_recording s \<Longrightarrow> record_ticks es s = s"
  by (cases es) simp_all

lemma record_ticks_clip:
  "audio_recording s \<Longrightarrow> clip_over s (record_ticks es s)"
proof (induction es arbitrary: s)
  case Nil
  then show ?case by (simp add: clip_over_def)
next
  case (Cons e es)
  obtain s1 k where s1: "clip_eq s s1" "audio_tick e s = s1 \<or> audio_tick e s = finish_audio_recording k s1"
    using audio_tick_rec[OF Cons.prems, of e] by blast
  have r1: "audio_recording s1" using s1(1) Cons.prems by (simp add: clip_eq_def)
  from s1(2) show ?case
  proof
    assume a: "audio_tick e s = s1"
    have "clip_over s1 (record_ticks es s1)" using Cons.IH[OF r1] .
    then show ?thesis using Cons.prems a clip_over_cong[OF s1(1)] by simp
  next
    assume a: "audio_tick e s = finish_audio_recording k s1"
    have "record_ticks es (finish_audio_recording k s1) = finish_audio_recording k s1"
      by (rule record_ticks_idle) (rule finish_idle)
    moreover have "clip_over s1 (finish_audio_recording k s1)"
      using finish_card[of k s1] by (auto simp: clip_over_def)
    ultimately show ?thesis using Cons.prems a clip_over_cong[OF s1(1)] by simp
  qed
qed

lemma adjust_start_epoch_value:
  "adjust_start_epoch epoch = (if epoch > 1 then epoch - 1 else epoch)"
  by (simp add: adjust_start_epoch_def AUDIO_PREROLL_MS_def Let_def)

lemmas audio_defs = audio_tick_def start_audio_recording_def finish_audio_recording_def
  write_audio_frame_def preroll_write_def preroll_push_def get_next_seq_def
  build_audio_folder_def build_audio_filename_def ensure_audio_folder_def SD_create_def
  adjust_start_epoch_def ms_to_samples_def kAudioPrerollSamples_def
  AUDIO_SAMPLE_RATE_def AUDIO_PREROLL_MS_def AUDIO_HEARTBEAT_DURATION_MS_def
  AUDIO_PHOTO_CLIP_POST_MS_def AUDIO_MIN_SEC_def

lemma forced_tick_continue:
  assumes "audio_ok s" "audio_recording s" "audio_force_active s" "audio_file s"
    "a_i2s_ok e" "a_write_ok e" "0 < a_sample_count e"
    "audio_samples_written s + a_sample_count e < audio_force_stop_samples s"
  shows "audio_tick e s = s\<lparr>audio_samples_written := audio_samples_written s + a_sample_count e\<rparr>"
  using assms by (simp add: audio_tick_def write_audio_frame_def Let_def)

lemma forced_ticks_continue:
  assumes "audio_ok s" "audio_recording s" "audio_force_active s" "audio_file s"
    "a_i2s_ok e" "a_write_ok e" "0 < a_sample_count e"
    "audio_samples_written s + n * a_sample_count e < audio_force_stop_samples s"
  shows "audio_ticks (replicate n e) s =
           s\<lparr>audio_samples_written := audio_samples_written s + n * a_sample_count e\<rparr>"
  using assms
proof (induction n arbitrary: s)
  case 0
  then show ?case by (simp add: audio_ticks_def)
next
  case (Suc n)
  let ?s1 = "s\<lparr>audio_samples_written := audio_samples_written s + a_sample_count e\<rparr>"
  have t: "audio_tick e s = ?s1"
    using forced_tick_continue[OF Suc.prems(1-7)] Suc.prems(8) by simp
  have "audio_ticks (replicate n e) ?s1 =
          ?s1\<lparr>audio_samples_written := audio_samples_written ?s1 + n * a_sample_count e\<rparr>"
    using Suc.IH[of ?s1] Suc.prems by simp
  then show ?case using t by (simp add: audio_ticks_def add.assoc)
qed

subsection \<open>The loop\<close>

lemma capture_fields:
  "audio_recording (snd (capture_and_save c s)) = audio_recording s"
  "audio_heartbeat_pending (snd (capture_and_save c s)) = audio_heartbeat_pending s"
  "audio_ok (snd (capture_and_save c s)) = audio_ok s"
  by (simp_all add: capture_and_save_def get_next_seq_def Let_def write_manifest_atomic_def)

lemma capture_photo_flag:
  "audio_photo_clip_pending (snd (capture_and_save c s)) \<longrightarrow>
     audio_photo_clip_pending s \<or> \<not> audio_recording s"
  "audio_recording s \<longrightarrow>
     audio_photo_clip_pending (snd (capture_and_save c s)) = audio_photo_clip_pending s \<and>
     audio_photo_clip_epoch (snd (capture_and_save c s)) = audio_photo_clip_epoch s"
  by (simp_all add: capture_and_save_def get_next_seq_def Let_def write_manifest_atomic_def)

lemma enforce_retention_flags:
  "audio_flags (fst (enforce_retention T U s)) = audio_flags s"
proof (cases "sd_ok s \<and> \<not> free_percent (T (sd s)) (U (sd s)) \<ge> SD_MIN_FREE_PERCENT")
  case False
  then show ?thesis by (auto simp: enforce_retention_def Let_def audio_flags_def)
next
  case True
  obtain s' fp del where r: "retention_loop T U s (free_percent (T (sd s)) (U (sd s))) [] = (s', fp, del)"
    by (metis prod.exhaust)
  obtain new where "s' = fold remove_item new s"
    using retention_loop_props[OF _ r] True by blast
  moreover obtain d where "fold remove_item new s = s\<lparr>sd := d\<rparr>"
    using fold_remove_card_only[of s new] unfolding card_only_def by blast
  ultimately have "s' = s\<lparr>sd := d\<rparr>" by simp
  then show ?thesis using True r by (simp add: enforce_retention_def Let_def audio_flags_def)
qed

lemma card_only_flags: "card_only s s' \<Longrightarrow> audio_flags s' = audio_flags s"
  unfolding card_only_def audio_flags_def by auto

lemma loop_step_flags:
  "audio_flags (loop_wifi e s) = audio_flags s"
  "audio_flags (loop_ntp e s) = audio_flags s"
  "audio_flags (loop_upload e s) = audio_flags s"
  "audio_flags (loop_retention e s) = audio_flags s"
  "audio_flags (loop_telemetry e s) = audio_flags s"
proof -
  show "audio_flags (loop_wifi e s) = audio_flags s"
    by (simp add: loop_wifi_def audio_flags_def Let_def)
  show "audio_flags (loop_ntp e s) = audio_flags s"
    by (simp add: loop_ntp_def audio_flags_def Let_def)
  show "audio_flags (loop_telemetry e s) = audio_flags s"
    by (simp add: loop_telemetry_def audio_flags_def Let_def)
  have "audio_flags (upload_batch (l_uploads e) s) = audio_flags s"
    using upload_batch_card_only by (rule card_only_flags)
  then show "audio_flags (loop_upload e s) = audio_flags s"
    by (simp add: loop_upload_def audio_flags_def Let_def)
  show "audio_flags (loop_retention e s) = audio_flags s"
    using enforce_retention_flags[of "l_totalBytes e" "l_usedBytes e" s]
    by (simp add: loop_retention_def audio_flags_def Let_def)
qed

lemma loop_capture_flags:
  "audio_recording (loop_capture e s) = audio_recording s"
  "audio_heartbeat_pending (loop_capture e s) = audio_heartbeat_pending s"
  "audio_photo_clip_pending (loop_capture e s) \<longrightarrow> audio_photo_clip_pending s \<or> \<not> audio_recording s"
  using capture_photo_flag(1)[of "l_capture e" s]
  by (simp_all add: loop_capture_def Let_def capture_fields)

lemma loop_heartbeat_flags:
  "audio_recording (loop_heartbeat e s) = audio_recording s"
  "audio_photo_clip_pending (loop_heartbeat e s) = audio_photo_clip_pending s"
  "audio_heartbeat_pending (loop_heartbeat e s) \<longrightarrow> audio_heartbeat_pending s \<or> \<not> audio_recording s"
  by (simp_all add: loop_heartbeat_def Let_def)

lemma demo_tick:
  "audio_tick (demo_frame 300) demo_booted = demo_booted\<lparr>preroll_index := 320\<rparr>"
  by (simp add: audio_defs demo_booted_def demo_frame_def fw_init_def Let_def
      AUDIO_RMS_START_MULT_def AUDIO_VAD_START_FRAMES_def)

lemma demo_before_capture:
  "loop_ntp demo_turn (loop_wifi demo_turn (audio_tick (l_audio demo_turn) demo_booted)) =
     demo_booted\<lparr>preroll_index := 320, last_wifi_attempt := 300000\<rparr>"
proof -
  have "l_audio demo_turn = demo_frame 300" by (simp add: demo_turn_def)
  then show ?thesis
    by (simp add: demo_tick) (simp add: loop_ntp_def loop_wifi_def demo_turn_def demo_booted_def fw_init_def)
qed

lemma demo_before_heartbeat:
  "audio_flags (before_heartbeat demo_turn demo_booted) = (False, True, False) \<and>
   audio_ok (before_heartbeat demo_turn demo_booted) \<and>
   last_audio_heartbeat (before_heartbeat demo_turn demo_booted) = 0"
  unfolding before_heartbeat_def demo_before_capture
  by (simp add: loop_capture_def capture_and_save_def get_next_seq_def write_manifest_atomic_def
      demo_turn_def demo_booted_def fw_init_def Let_def CAPTURE_INTERVAL_MS_def
      AUDIO_PHOTO_CLIP_ENABLED_def audio_flags_def)

lemma loop_before_heartbeat:
  "audio_flags (loop e s) = audio_flags (loop_heartbeat e (before_heartbeat e s))"
  by (simp add: loop_def before_heartbeat_def loop_step_flags)

lemma demo_after_heartbeat:
  "audio_flags (loop_heartbeat demo_turn (before_heartbeat demo_turn demo_booted)) = (False, True, True)"
proof -
  have "l_millis demo_turn = 300000" by (simp add: demo_turn_def)
  then show ?thesis using demo_before_heartbeat
    by (simp add: audio_flags_def loop_heartbeat_def Let_def AUDIO_HEARTBEAT_ENABLED_def
        AUDIO_HEARTBEAT_INTERVAL_MS_def)
qed

section \<open>The claims\<close>

subsection \<open>Free space\<close>





subsection \<open>The oldest manifest\<close>

text \<open>
  C2. Both scans return the minimum under the ordering rule. For a mounted card whose
  manifests hold unsigned numbers: \<^verbatim>\<open>find_oldest_uploaded\<close> finds an item exactly when there
  is an UPLOADED manifest, the item is one of the UPLOADED manifests, and no UPLOADED
  manifest is older than it. \<^verbatim>\<open>find_oldest_pending\<close>, on a directory as the firmware leaves
  it, does the same over the PENDING manifests it lets through to the comparison (below the
  attempt limit and out of backoff at time \<open>now\<close>).
\<close>

theorem oldest_is_minimum:
  assumes "sd_ok s" and "unsigned_manifests (sd s)"
  shows "(fst (find_oldest_uploaded out0 s) \<longleftrightarrow> manifests_with_status (sd s) ''UPLOADED'' \<noteq> []) \<and>
     (fst (find_oldest_uploaded out0 s) \<longrightarrow>
        snd (find_oldest_uploaded out0 s) \<in> set (manifests_with_status (sd s) ''UPLOADED'') \<and>
        (\<forall>c \<in> set (manifests_with_status (sd s) ''UPLOADED'').
            \<not> older c (snd (find_oldest_uploaded out0 s)))) \<and>
     (wf_manifests (sd s) \<longrightarrow>
        (fst (fst (find_oldest_pending now out0 s)) \<longleftrightarrow> pending_candidates now (sd s) \<noteq> []) \<and>
        (fst (fst (find_oldest_pending now out0 s)) \<longrightarrow>
           snd (fst (find_oldest_pending now out0 s)) \<in> set (pending_candidates now (sd s)) \<and>
           (\<forall>c \<in> set (pending_candidates now (sd s)).
               \<not> older c (snd (fst (find_oldest_pending now out0 s))))))"
proof -
  have u: "\<forall>c \<in> set (manifests_with_status (sd s) ''UPLOADED''). 0 \<le> captured_epoch c"
    using unsigned_listed[OF assms(2)] by blast
  have p: "\<forall>c \<in> set (pending_candidates now (sd s)). 0 \<le> captured_epoch c"
    using unsigned_listed[OF assms(2)] by (auto simp: pending_candidates_def)
  note up = pick_minimum[OF u, of out0]
  have uploaded: "(fst (find_oldest_uploaded out0 s) \<longleftrightarrow> manifests_with_status (sd s) ''UPLOADED'' \<noteq> []) \<and>
     (fst (find_oldest_uploaded out0 s) \<longrightarrow>
        snd (find_oldest_uploaded out0 s) \<in> set (manifests_with_status (sd s) ''UPLOADED'') \<and>
        (\<forall>c \<in> set (manifests_with_status (sd s) ''UPLOADED'').
            \<not> older c (snd (find_oldest_uploaded out0 s))))"
    unfolding find_oldest_uploaded_pick[OF assms(1)] using up by simp
  have pending: "(fst (fst (find_oldest_pending now out0 s)) \<longleftrightarrow> pending_candidates now (sd s) \<noteq> []) \<and>
        (fst (fst (find_oldest_pending now out0 s)) \<longrightarrow>
           snd (fst (find_oldest_pending now out0 s)) \<in> set (pending_candidates now (sd s)) \<and>
           (\<forall>c \<in> set (pending_candidates now (sd s)).
               \<not> older c (snd (fst (find_oldest_pending now out0 s)))))"
    if wf: "wf_manifests (sd s)"
  proof -
    obtain s' where "find_oldest_pending now out0 s =
            ((found (fold take_item (pending_candidates now (sd s)) (scan_init out0)),
              out (fold take_item (pending_candidates now (sd s)) (scan_init out0))), s')"
      using find_oldest_pending_pick[OF assms(1) wf, of now out0] by blast
    then show ?thesis using pick_minimum[OF p, of out0] by simp
  qed
  show ?thesis using uploaded pending by blast
qed

theorem oldest_is_minimum_witness:
  "sd_ok demo_queue \<and> unsigned_manifests (sd demo_queue) \<and> wf_manifests (sd demo_queue) \<and>
   find_oldest_uploaded PendingItem_init demo_queue = (True, photo_item 2 100 1 110) \<and>
   \<not> older (photo_item 1 200 1 210) (photo_item 2 100 1 110) \<and>
   \<not> older (photo_item 3 0 2 400) (photo_item 2 100 1 110) \<and>
   fst (find_oldest_pending 1060 PendingItem_init demo_queue) = (True, photo_item 5 250 1 1000) \<and>
   \<not> older (photo_item 4 300 0 0) (photo_item 5 250 1 1000)"
proof -
  have h1: "sd_ok demo_queue" by code_simp
  have h2: "unsigned_manifests (sd demo_queue)" by code_simp
  have h3: "wf_manifests (sd demo_queue)" by code_simp
  have u: "find_oldest_uploaded PendingItem_init demo_queue = (True, photo_item 2 100 1 110)"
    by code_simp
  have p: "fst (find_oldest_pending 1060 PendingItem_init demo_queue) = (True, photo_item 5 250 1 1000)"
    by code_simp
  have mu: "manifests_with_status (sd demo_queue) ''UPLOADED'' =
      [photo_item 1 200 1 210, photo_item 2 100 1 110, photo_item 3 0 2 400]"
    by code_simp
  have mp: "pending_candidates 1060 (sd demo_queue) = [photo_item 4 300 0 0, photo_item 5 250 1 1000]"
    by code_simp
  from oldest_is_minimum[OF h1 h2, of PendingItem_init 1060] h3 u p mu mp
  have "\<not> older (photo_item 1 200 1 210) (photo_item 2 100 1 110) \<and>
        \<not> older (photo_item 3 0 2 400) (photo_item 2 100 1 110) \<and>
        \<not> older (photo_item 4 300 0 0) (photo_item 5 250 1 1000)"
    by simp
  then show ?thesis using h1 h2 h3 u p by simp
qed

subsection \<open>Backoff\<close>

text \<open>
  C4. The backoff after 1, 2 and 3 or more attempts is 60, 300 and 1800 seconds. For a
  mounted card with a directory as the firmware leaves it and unsigned numbers in its
  manifests: a PENDING manifest below the attempt limit is let through to the comparison of
  \<^verbatim>\<open>find_oldest_pending\<close> at time \<open>now\<close> exactly when it is eligible
  (\<open>upload_attempts = 0\<close> or \<open>now - last_attempt_epoch \<ge> backoff(upload_attempts)\<close>); the scan
  finds an item exactly when such a manifest exists, and the item it returns is one.
\<close>

theorem backoff_eligibility:
  assumes "sd_ok s" and "wf_manifests (sd s)" and "unsigned_manifests (sd s)"
  shows "backoff_seconds 1 = 60 \<and> backoff_seconds 2 = 300 \<and>
     (\<forall>n. 3 \<le> n \<longrightarrow> backoff_seconds n = 1800) \<and>
     (\<forall>c \<in> set (manifests_with_status (sd s) ''PENDING'').
         upload_attempts c < UPLOAD_MAX_ATTEMPTS \<longrightarrow>
           (c \<in> set (pending_candidates now (sd s)) \<longleftrightarrow> eligible now c)) \<and>
     (fst (fst (find_oldest_pending now out0 s)) \<longleftrightarrow>
        (\<exists>c \<in> set (manifests_with_status (sd s) ''PENDING'').
            upload_attempts c < UPLOAD_MAX_ATTEMPTS \<and> eligible now c)) \<and>
     (fst (fst (find_oldest_pending now out0 s)) \<longrightarrow>
        snd (fst (find_oldest_pending now out0 s)) \<in> set (manifests_with_status (sd s) ''PENDING'') \<and>
        upload_attempts (snd (fst (find_oldest_pending now out0 s))) < UPLOAD_MAX_ATTEMPTS \<and>
        eligible now (snd (fst (find_oldest_pending now out0 s))))"
proof -
  have mem: "c \<in> set (pending_candidates now (sd s)) \<longleftrightarrow>
        c \<in> set (manifests_with_status (sd s) ''PENDING'') \<and>
        upload_attempts c < UPLOAD_MAX_ATTEMPTS \<and> eligible now c" for c
    using unsigned_listed[OF assms(3), of c "''PENDING''"] pending_ok_eligible[of c now]
    by (auto simp: pending_candidates_def)
  have ne: "pending_candidates now (sd s) \<noteq> [] \<longleftrightarrow>
        (\<exists>c \<in> set (manifests_with_status (sd s) ''PENDING'').
            upload_attempts c < UPLOAD_MAX_ATTEMPTS \<and> eligible now c)"
  proof -
    have "pending_candidates now (sd s) \<noteq> [] \<longleftrightarrow> (\<exists>c. c \<in> set (pending_candidates now (sd s)))"
      by (cases "pending_candidates now (sd s)") auto
    then show ?thesis using mem by blast
  qed
  obtain s' where pick: "find_oldest_pending now out0 s =
            ((found (fold take_item (pending_candidates now (sd s)) (scan_init out0)),
              out (fold take_item (pending_candidates now (sd s)) (scan_init out0))), s')"
    using find_oldest_pending_pick[OF assms(1,2), of now out0] by blast
  have fnd: "found (fold take_item (pending_candidates now (sd s)) (scan_init out0)) \<longleftrightarrow>
             pending_candidates now (sd s) \<noteq> []"
    using fold_take_item_found[of "pending_candidates now (sd s)" "scan_init out0"] by simp
  have res: "out (fold take_item (pending_candidates now (sd s)) (scan_init out0))
               \<in> set (pending_candidates now (sd s))"
    if "found (fold take_item (pending_candidates now (sd s)) (scan_init out0))"
    using fold_take_item_member[OF that] by simp
  show ?thesis
    unfolding pick using backoff_values mem ne fnd res by auto
qed

theorem backoff_eligibility_witness:
  "sd_ok demo_queue \<and> wf_manifests (sd demo_queue) \<and> unsigned_manifests (sd demo_queue) \<and>
   photo_item 5 250 1 1000 \<in> set (manifests_with_status (sd demo_queue) ''PENDING'') \<and>
   upload_attempts (photo_item 5 250 1 1000) < UPLOAD_MAX_ATTEMPTS \<and>
   \<not> eligible 1059 (photo_item 5 250 1 1000) \<and>
   photo_item 5 250 1 1000 \<notin> set (pending_candidates 1059 (sd demo_queue)) \<and>
   fst (find_oldest_pending 1059 PendingItem_init demo_queue) = (True, photo_item 4 300 0 0) \<and>
   eligible 1059 (photo_item 4 300 0 0)"
proof -
  have h1: "sd_ok demo_queue" by code_simp
  have h2: "wf_manifests (sd demo_queue)" by code_simp
  have h3: "unsigned_manifests (sd demo_queue)" by code_simp
  have m: "photo_item 5 250 1 1000 \<in> set (manifests_with_status (sd demo_queue) ''PENDING'')"
    by code_simp
  have a: "upload_attempts (photo_item 5 250 1 1000) < UPLOAD_MAX_ATTEMPTS" by code_simp
  have n: "\<not> eligible 1059 (photo_item 5 250 1 1000)" by code_simp
  have p: "fst (find_oldest_pending 1059 PendingItem_init demo_queue) = (True, photo_item 4 300 0 0)"
    by code_simp
  from backoff_eligibility[OF h1 h2 h3, of 1059 PendingItem_init] m a n p
  have "photo_item 5 250 1 1000 \<notin> set (pending_candidates 1059 (sd demo_queue)) \<and>
        eligible 1059 (photo_item 4 300 0 0)"
    by auto
  then show ?thesis using h1 h2 h3 m a n p by simp
qed

subsection \<open>Failed uploads\<close>





subsection \<open>An empty device token\<close>

text \<open>
  C5 says that with an empty \<^verbatim>\<open>DEVICE_TOKEN\<close> an upload tick changes no manifest. The
  source tests the token in \<^verbatim>\<open>request_upload_target\<close>, after \<^verbatim>\<open>upload_one_pending\<close> has
  already written the attempt into the manifest, and treats the missing token as a failed
  attempt. Here the card holds one PENDING photo that was never tried. One
  \<^verbatim>\<open>upload_batch\<close> with the empty token leaves its manifest with one attempt, made at the
  time of the tick; three ticks, each after the backoff, leave it FAILED.
\<close>

definition demo_fresh :: fw where
  "demo_fresh = fw_init\<lparr>sd_ok := True, wifi_ok := True,
     sd := \<lparr>manifests = [photo_manifest 9 500 ''PENDING'' 0 0], files = [photo_path 9]\<rparr>\<rparr>"

definition demo_no_token :: "time_t \<Rightarrow> nat \<Rightarrow> upload_env" where
  "demo_no_token now i = \<lparr>u_now = now, u_attempt_epoch = now + 1,
     u_device_token = [], u_target_ok = True, u_stream_ok = True, u_ingest_ok = True\<rparr>"

theorem empty_token_counts_attempts:
  "load_manifest (sd demo_fresh) ''/manifests/9.json'' = Some (photo_item 9 500 0 0, ''PENDING'') \<and>
   load_manifest (sd (upload_batch (demo_no_token 3000) demo_fresh)) ''/manifests/9.json'' =
     Some (photo_item 9 500 1 3001, ''PENDING'') \<and>
   load_manifest (sd (upload_batch (demo_no_token 4000)
                       (upload_batch (demo_no_token 3500)
                         (upload_batch (demo_no_token 3000) demo_fresh)))) ''/manifests/9.json'' =
     Some (photo_item 9 500 3 4001, ''FAILED'')"
  by code_simp

subsection \<open>Retention\<close>

text \<open>
  C3. On a mounted card, when \<^verbatim>\<open>enforce_retention\<close> returns the state \<open>s'\<close> and has removed
  the items \<open>deleted\<close>: the free percentage of the card is at least
  \<^verbatim>\<open>SD_MIN_FREE_PERCENT\<close> or no UPLOADED manifest is left; \<^verbatim>\<open>capture_paused\<close> holds exactly
  when the free percentage is below \<^verbatim>\<open>SD_EMERGENCY_FREE_PERCENT\<close>; the state is the old one
  with the items removed one after the other (and the pause flag set); every item removed
  was an UPLOADED manifest, so that a path that is gone was the artifact or the manifest of
  one, and no path was created; and, the manifests holding unsigned epochs, the items were
  removed oldest first: none is older than one removed before it, and no UPLOADED manifest
  that is left is older than one removed.
\<close>

theorem retention_sweep:
  assumes "sd_ok s" and "enforce_retention totalBytes usedBytes s = (s', deleted)"
  shows "(free_percent (totalBytes (sd s')) (usedBytes (sd s')) \<ge> SD_MIN_FREE_PERCENT \<or>
          manifests_with_status (sd s') ''UPLOADED'' = []) \<and>
     (capture_paused s' \<longleftrightarrow>
        free_percent (totalBytes (sd s')) (usedBytes (sd s')) < SD_EMERGENCY_FREE_PERCENT) \<and>
     s' = (fold remove_item deleted s)\<lparr>capture_paused := capture_paused s'\<rparr> \<and>
     set deleted \<subseteq> set (manifests_with_status (sd s) ''UPLOADED'') \<and>
     (\<forall>path. SD_exists (sd s') path \<longleftrightarrow>
        SD_exists (sd s) path \<and> (\<forall>d \<in> set deleted. path \<noteq> filepath d \<and> path \<noteq> manifest_path d)) \<and>
     (unsigned_manifests (sd s) \<longrightarrow>
        oldest_first deleted \<and>
        (\<forall>r \<in> set (manifests_with_status (sd s') ''UPLOADED''). \<forall>d \<in> set deleted. \<not> older r d))"
proof (cases "free_percent (totalBytes (sd s)) (usedBytes (sd s)) \<ge> SD_MIN_FREE_PERCENT")
  case True
  then have e: "s' = s\<lparr>capture_paused := False\<rparr>" "deleted = []"
    using assms by (simp_all add: enforce_retention_def Let_def)
  have "SD_exists (sd s) path \<longleftrightarrow> SD_exists (sd s) path \<and> True" for path by simp
  then show ?thesis
    unfolding e using True min_free_not_emergency[OF True] by simp
next
  case False
  obtain t fp del where l: "retention_loop totalBytes usedBytes s
        (free_percent (totalBytes (sd s)) (usedBytes (sd s))) [] = (t, fp, del)"
    by (metis prod.exhaust)
  have e: "s' = t\<lparr>capture_paused := (fp < SD_EMERGENCY_FREE_PERCENT)\<rparr>" "deleted = del"
    using assms False l by (simp_all add: enforce_retention_def Let_def)
  from retention_loop_props[OF assms(1) l]
  have p: "t = fold remove_item del s"
       "fp \<ge> SD_MIN_FREE_PERCENT \<or> manifests_with_status (sd t) ''UPLOADED'' = []"
       "fp = (if del = [] then free_percent (totalBytes (sd s)) (usedBytes (sd s))
              else free_percent (totalBytes (sd t)) (usedBytes (sd t)))"
       "set del \<subseteq> set (manifests_with_status (sd s) ''UPLOADED'')"
       "unsigned_manifests (sd s) \<longrightarrow> oldest_first del \<and>
          (\<forall>r \<in> set (manifests_with_status (sd t) ''UPLOADED''). \<forall>d \<in> set del. \<not> older r d)"
    by auto
  have fp: "fp = free_percent (totalBytes (sd t)) (usedBytes (sd t))"
    using p(3) p(1) by (cases "del = []") simp_all
  have sd: "sd s' = sd t" "capture_paused s' = (fp < SD_EMERGENCY_FREE_PERCENT)"
    unfolding e by simp_all
  have ex: "SD_exists (sd t) path \<longleftrightarrow>
        SD_exists (sd s) path \<and> (\<forall>d \<in> set del. path \<noteq> filepath d \<and> path \<noteq> manifest_path d)" for path
    unfolding p(1) by (rule SD_exists_fold_remove)
  have st: "s' = (fold remove_item deleted s)\<lparr>capture_paused := capture_paused s'\<rparr>"
    unfolding e p(1) by simp
  show ?thesis
  proof (intro conjI)
    show "free_percent (totalBytes (sd s')) (usedBytes (sd s')) \<ge> SD_MIN_FREE_PERCENT \<or>
          manifests_with_status (sd s') ''UPLOADED'' = []"
      unfolding sd using p(2) fp by simp
    show "capture_paused s' \<longleftrightarrow>
        free_percent (totalBytes (sd s')) (usedBytes (sd s')) < SD_EMERGENCY_FREE_PERCENT"
      unfolding sd using fp by simp
    show "s' = (fold remove_item deleted s)\<lparr>capture_paused := capture_paused s'\<rparr>"
      by (rule st)
    show "set deleted \<subseteq> set (manifests_with_status (sd s) ''UPLOADED'')"
      unfolding e(2) by (rule p(4))
    show "\<forall>path. SD_exists (sd s') path \<longleftrightarrow>
        SD_exists (sd s) path \<and> (\<forall>d \<in> set deleted. path \<noteq> filepath d \<and> path \<noteq> manifest_path d)"
      unfolding sd e(2) using ex by simp
    show "unsigned_manifests (sd s) \<longrightarrow>
        oldest_first deleted \<and>
        (\<forall>r \<in> set (manifests_with_status (sd s') ''UPLOADED''). \<forall>d \<in> set deleted. \<not> older r d)"
      unfolding sd e(2) by (rule p(5))
  qed
qed

text \<open>
  The card reports 1000 bytes, 750 of them used by other things and 50 by each artifact.
  It holds three uploaded photos (taken at 300, 100 and 200) and a pending one, so 5
  percent are free. The sweep removes the photos of 100 and 200, in this order, which
  leaves 15 percent free; the photo of 300 and the pending photo stay, and capture is
  not paused.
\<close>

definition demo_total :: "sdcard \<Rightarrow> 64 word" where
  "demo_total disk = 1000"

definition demo_used :: "sdcard \<Rightarrow> 64 word" where
  "demo_used disk = 750 + 50 * of_nat (length (files disk))"

definition demo_full :: fw where
  "demo_full = fw_init\<lparr>sd_ok := True, capture_paused := True,
     sd := \<lparr>manifests =
              [photo_manifest 1 300 ''UPLOADED'' 1 310,
               photo_manifest 2 100 ''UPLOADED'' 1 110,
               photo_manifest 3 150 ''PENDING'' 0 0,
               photo_manifest 4 200 ''UPLOADED'' 2 400],
            files = [photo_path 1, photo_path 2, photo_path 3, photo_path 4]\<rparr>\<rparr>"

theorem retention_sweep_witness:
  "sd_ok demo_full \<and>
   enforce_retention demo_total demo_used demo_full =
     (demo_full\<lparr>capture_paused := False,
        sd := \<lparr>manifests = [photo_manifest 1 300 ''UPLOADED'' 1 310,
                             photo_manifest 3 150 ''PENDING'' 0 0],
               files = [photo_path 1, photo_path 3]\<rparr>\<rparr>,
      [photo_item 2 100 1 110, photo_item 4 200 2 400]) \<and>
   unsigned_manifests (sd demo_full) \<and>
   oldest_first [photo_item 2 100 1 110, photo_item 4 200 2 400] \<and>
   free_percent (demo_total \<lparr>manifests = [photo_manifest 1 300 ''UPLOADED'' 1 310,
                             photo_manifest 3 150 ''PENDING'' 0 0],
               files = [photo_path 1, photo_path 3]\<rparr>)
     (demo_used \<lparr>manifests = [photo_manifest 1 300 ''UPLOADED'' 1 310,
                             photo_manifest 3 150 ''PENDING'' 0 0],
               files = [photo_path 1, photo_path 3]\<rparr>) = 15"
proof -
  let ?d = "\<lparr>manifests = [photo_manifest 1 300 ''UPLOADED'' 1 310,
                             photo_manifest 3 150 ''PENDING'' 0 0],
               files = [photo_path 1, photo_path 3]\<rparr>"
  have h1: "sd_ok demo_full" by code_simp
  have h2: "enforce_retention demo_total demo_used demo_full =
     (demo_full\<lparr>capture_paused := False, sd := ?d\<rparr>,
      [photo_item 2 100 1 110, photo_item 4 200 2 400])"
    by code_simp
  have h3: "unsigned_manifests (sd demo_full)" by code_simp
  have f: "free_percent (demo_total ?d) (demo_used ?d) = 15" by code_simp
  note th = retention_sweep[OF h1 h2]
  note imp = th[THEN conjunct2, THEN conjunct2, THEN conjunct2, THEN conjunct2, THEN conjunct2]
  have "oldest_first [photo_item 2 100 1 110, photo_item 4 200 2 400]"
    by (rule mp[OF imp h3, THEN conjunct1])
  then show ?thesis using h1 h2 h3 f by simp
qed

subsection \<open>Forced clips\<close>

text \<open>
  C10. Let \<^verbatim>\<open>audio_tick\<close> read a frame while nothing is recording and a photo clip or a
  heartbeat clip is pending, and let the start fail: the card is not mounted, capture is
  paused, the folder cannot be made or the file cannot be opened. The tick clears the flag
  of the clip it serves (the photo clip when both are pending) and then calls
  \<^verbatim>\<open>start_audio_recording\<close>; after the tick nothing is recording and the card is as it was,
  so there is no file and no manifest of the clip. The flag stays down through any number of
  later calls of \<^verbatim>\<open>audio_tick\<close>, which do not raise it, and when only one clip was pending
  no later recording made by \<^verbatim>\<open>audio_tick\<close> alone is a forced one.
\<close>

theorem forced_start_single_shot:
  assumes "audio_ok s" and "a_i2s_ok e" and "0 < a_sample_count e" and "\<not> audio_recording s"
    and "audio_photo_clip_pending s \<or> audio_heartbeat_pending s"
    and "\<not> sd_ok s \<or> capture_paused s \<or> \<not> a_folder_ok e \<or> \<not> a_open_ok e"
  shows "audio_tick e s =
      snd (start_audio_recording e (a_sample_count e)
             (if audio_photo_clip_pending s then audio_photo_clip_epoch s else a_now e)
             (kAudioPrerollSamples +
                ms_to_samples (if audio_photo_clip_pending s then AUDIO_PHOTO_CLIP_POST_MS
                               else AUDIO_HEARTBEAT_DURATION_MS))
             (if audio_photo_clip_pending s then s\<lparr>audio_photo_clip_pending := False\<rparr>
              else s\<lparr>audio_heartbeat_pending := False\<rparr>)) \<and>
    \<not> audio_recording (audio_tick e s) \<and> sd (audio_tick e s) = sd s \<and>
    (if audio_photo_clip_pending s
     then \<not> audio_photo_clip_pending (audio_tick e s) \<and>
          audio_heartbeat_pending (audio_tick e s) = audio_heartbeat_pending s
     else \<not> audio_photo_clip_pending (audio_tick e s) \<and> \<not> audio_heartbeat_pending (audio_tick e s)) \<and>
    (\<forall>es. (audio_photo_clip_pending s \<longrightarrow>
              \<not> audio_photo_clip_pending (audio_ticks es (audio_tick e s))) \<and>
          (\<not> audio_photo_clip_pending s \<longrightarrow>
              \<not> audio_heartbeat_pending (audio_ticks es (audio_tick e s))) \<and>
          (\<not> (audio_photo_clip_pending s \<and> audio_heartbeat_pending s) \<longrightarrow>
              audio_recording (audio_ticks es (audio_tick e s)) \<longrightarrow>
              \<not> audio_force_active (audio_ticks es (audio_tick e s))))"
proof -
  let ?s0 = "if audio_photo_clip_pending s then s\<lparr>audio_photo_clip_pending := False\<rparr>
              else s\<lparr>audio_heartbeat_pending := False\<rparr>"
  let ?t = "audio_tick e s"
  have eq: "?t = snd (start_audio_recording e (a_sample_count e)
             (if audio_photo_clip_pending s then audio_photo_clip_epoch s else a_now e)
             (kAudioPrerollSamples +
                ms_to_samples (if audio_photo_clip_pending s then AUDIO_PHOTO_CLIP_POST_MS
                               else AUDIO_HEARTBEAT_DURATION_MS)) ?s0)"
    using assms audio_tick_photo[of s e] audio_tick_heartbeat[of s e] by auto
  have i0: "\<not> audio_recording ?s0" using assms(4) by simp
  have f0: "\<not> sd_ok ?s0 \<or> capture_paused ?s0 \<or> \<not> a_folder_ok e \<or> \<not> a_open_ok e"
    using assms(6) by auto
  note sf = start_fails[OF i0 f0]
  have idle: "\<not> audio_recording ?t" unfolding eq by (rule sf(2))
  have card: "sd ?t = sd s" unfolding eq using sf(3) by simp
  have fl: "audio_photo_clip_pending ?t = audio_photo_clip_pending ?s0"
           "audio_heartbeat_pending ?t = audio_heartbeat_pending ?s0"
    unfolding eq by (simp_all only: start_flags)
  have flags: "if audio_photo_clip_pending s
     then \<not> audio_photo_clip_pending ?t \<and> audio_heartbeat_pending ?t = audio_heartbeat_pending s
     else \<not> audio_photo_clip_pending ?t \<and> \<not> audio_heartbeat_pending ?t"
    using fl by auto
  have later: "(audio_photo_clip_pending s \<longrightarrow> \<not> audio_photo_clip_pending (audio_ticks es ?t)) \<and>
          (\<not> audio_photo_clip_pending s \<longrightarrow> \<not> audio_heartbeat_pending (audio_ticks es ?t)) \<and>
          (\<not> (audio_photo_clip_pending s \<and> audio_heartbeat_pending s) \<longrightarrow>
              audio_recording (audio_ticks es ?t) \<longrightarrow> \<not> audio_force_active (audio_ticks es ?t))" for es
  proof -
    have a: "\<not> audio_photo_clip_pending (audio_ticks es ?t)"
      using audio_ticks_no_raise(1)[of es ?t] flags by (auto split: if_splits)
    have b: "\<not> audio_photo_clip_pending s \<longrightarrow> \<not> audio_heartbeat_pending (audio_ticks es ?t)"
      using audio_ticks_no_raise(2)[of es ?t] flags by (auto split: if_splits)
    have c: "audio_recording (audio_ticks es ?t) \<longrightarrow> \<not> audio_force_active (audio_ticks es ?t)"
      if "\<not> (audio_photo_clip_pending s \<and> audio_heartbeat_pending s)"
    proof -
      have "unforced ?t" using flags idle that by (auto simp: unforced_def split: if_splits)
      then have "unforced (audio_ticks es ?t)" by (rule audio_ticks_unforced)
      then show ?thesis by (simp add: unforced_def)
    qed
    show ?thesis using a b c by blast
  qed
  show ?thesis using eq idle card flags later by blast
qed

text \<open>
  No card is mounted and a photo clip is pending. The tick drops the flag and leaves the
  card alone; two more ticks do not bring the flag back.
\<close>

theorem forced_start_single_shot_witness:
  "audio_ok demo_no_card \<and> a_i2s_ok (demo_frame 1001) \<and> 0 < a_sample_count (demo_frame 1001) \<and>
   \<not> audio_recording demo_no_card \<and> audio_photo_clip_pending demo_no_card \<and> \<not> sd_ok demo_no_card \<and>
   \<not> audio_recording (audio_tick (demo_frame 1001) demo_no_card) \<and>
   sd (audio_tick (demo_frame 1001) demo_no_card) = sd demo_no_card \<and>
   \<not> audio_photo_clip_pending (audio_tick (demo_frame 1001) demo_no_card) \<and>
   \<not> audio_photo_clip_pending
       (audio_ticks [demo_frame 1002, demo_frame 1003] (audio_tick (demo_frame 1001) demo_no_card))"
proof -
  have h1: "audio_ok demo_no_card" by (simp add: demo_no_card_def fw_init_def)
  have h2: "a_i2s_ok (demo_frame 1001)" by (simp add: demo_frame_def)
  have h3: "0 < a_sample_count (demo_frame 1001)" by (simp add: demo_frame_def)
  have h4: "\<not> audio_recording demo_no_card" by (simp add: demo_no_card_def fw_init_def)
  have h5: "audio_photo_clip_pending demo_no_card" by (simp add: demo_no_card_def fw_init_def)
  have h6: "\<not> sd_ok demo_no_card" by (simp add: demo_no_card_def fw_init_def)
  have h5': "audio_photo_clip_pending demo_no_card \<or> audio_heartbeat_pending demo_no_card"
    using h5 by simp
  have h6': "\<not> sd_ok demo_no_card \<or> capture_paused demo_no_card \<or> \<not> a_folder_ok (demo_frame 1001) \<or>
     \<not> a_open_ok (demo_frame 1001)" using h6 by simp
  note th = forced_start_single_shot[OF h1 h2 h3 h4 h5' h6']
  have a: "\<not> audio_recording (audio_tick (demo_frame 1001) demo_no_card)" using th by blast
  have b: "sd (audio_tick (demo_frame 1001) demo_no_card) = sd demo_no_card" using th by blast
  have c: "\<not> audio_photo_clip_pending (audio_tick (demo_frame 1001) demo_no_card)"
    using th h5 by auto
  have d: "\<not> audio_photo_clip_pending
       (audio_ticks [demo_frame 1002, demo_frame 1003] (audio_tick (demo_frame 1001) demo_no_card))"
    using th h5 by blast
  show ?thesis using h1 h2 h3 h4 h5 h6 a b c d by simp
qed

text \<open>
  C7 says that the manifest of a heartbeat clip holds the epoch of the triggering tick,
  with no preroll adjustment. The source passes that epoch to \<^verbatim>\<open>start_audio_recording\<close>,
  which applies \<^verbatim>\<open>adjust_start_epoch\<close> to every start epoch it is given, the forced ones
  included. Here a heartbeat is pending at epoch 1000; the clip runs its 64000 samples and
  its manifest is written with \<^verbatim>\<open>captured_at_epoch\<close> 999.
\<close>

theorem heartbeat_epoch_counterexample:
  "a_now (demo_frame 1000) = 1000 \<and>
   load_manifest
     (sd (audio_tick (demo_frame 1003)
           (audio_ticks (replicate 198 (demo_frame 1001))
             (audio_tick (demo_frame 1000) demo_heartbeat))))
     ''/manifests/0.json'' =
   Some (\<lparr>manifest_path = ''/manifests/0.json'', filepath = ''/unsynced_audio/audio_0.wav'',
          item_type = ''audio'', content_type = ''audio/wav'', seq = 0, captured_epoch = 999,
          upload_attempts = 0, last_attempt_epoch = 0\<rparr>, ''PENDING'')"
proof -
  let ?s1 = "fw_init\<lparr>sd_ok := True, audio_ok := True, prefs_seq := 1, audio_seq := 0,
      audio_start_epoch := 999, audio_force_stop_samples := 64000, audio_force_active := True,
      audio_filepath := ''/unsynced_audio/audio_0.wav'', audio_file := True,
      sd := \<lparr>manifests = [], files = [''/unsynced_audio/audio_0.wav'']\<rparr>,
      audio_samples_written := 320, audio_recording := True\<rparr>"
  have s0: "String_of_nat 0 = ''0''" by (simp add: String_of_nat.simps digit_char_def)
  have s1: "audio_tick (demo_frame 1000) demo_heartbeat = ?s1"
    by (simp add: audio_defs demo_frame_def demo_heartbeat_def fw_init_def Let_def s0)
  have s2: "audio_ticks (replicate 198 (demo_frame 1001)) ?s1 =
        ?s1\<lparr>audio_samples_written := audio_samples_written ?s1 + 198 * a_sample_count (demo_frame 1001)\<rparr>"
    by (rule forced_ticks_continue) (simp_all add: demo_frame_def fw_init_def)
  have s3: "load_manifest
     (sd (audio_tick (demo_frame 1003)
           (?s1\<lparr>audio_samples_written := audio_samples_written ?s1 + 198 * a_sample_count (demo_frame 1001)\<rparr>)))
     ''/manifests/0.json'' =
   Some (\<lparr>manifest_path = ''/manifests/0.json'', filepath = ''/unsynced_audio/audio_0.wav'',
          item_type = ''audio'', content_type = ''audio/wav'', seq = 0, captured_epoch = 999,
          upload_attempts = 0, last_attempt_epoch = 0\<rparr>, ''PENDING'')"
    by (simp add: audio_defs demo_frame_def fw_init_def Let_def s0 write_manifest_atomic_def
        manifest_name_def load_manifest_def SD_open_def d_path_def endsWith_def)
  show ?thesis unfolding s1 s2 using s3 by (simp add: demo_frame_def)
qed

text \<open>
  C7, as the source has it. When a tick serves a pending heartbeat and the recording
  starts, the start epoch kept for the manifest is \<^verbatim>\<open>adjust_start_epoch\<close> of the epoch read
  at that tick: one second less (the preroll, rounded up to whole seconds) when the epoch is
  above 1, the epoch itself otherwise. The recording is a forced one, and whatever the
  later ticks of this recording do to the card, a manifest they write for it carries that
  adjusted epoch.
\<close>

theorem heartbeat_epoch_adjusted:
  assumes "audio_ok s" and "a_i2s_ok e" and "0 < a_sample_count e" and "\<not> audio_recording s"
    and "\<not> audio_photo_clip_pending s" and "audio_heartbeat_pending s"
    and "audio_recording (audio_tick e s)"
  shows "audio_start_epoch (audio_tick e s) = adjust_start_epoch (a_now e) \<and>
     adjust_start_epoch (a_now e) = (if a_now e > 1 then a_now e - 1 else a_now e) \<and>
     audio_force_active (audio_tick e s) \<and>
     (\<forall>es. audio_recording (record_ticks es (audio_tick e s)) \<or>
           sd (record_ticks es (audio_tick e s)) = sd (audio_tick e s) \<or>
           sd (record_ticks es (audio_tick e s)) =
             SD_remove (audio_filepath (audio_tick e s)) (sd (audio_tick e s)) \<or>
           sd (record_ticks es (audio_tick e s)) =
             sd (snd (write_manifest_atomic (audio_seq (audio_tick e s))
                        (audio_filepath (audio_tick e s)) (adjust_start_epoch (a_now e))
                        ''PENDING'' ''audio'' ''audio/wav'' 0 0 (audio_tick e s))))"
proof -
  let ?s0 = "s\<lparr>audio_heartbeat_pending := False\<rparr>"
  let ?f = "kAudioPrerollSamples + ms_to_samples AUDIO_HEARTBEAT_DURATION_MS"
  have eq: "audio_tick e s = snd (start_audio_recording e (a_sample_count e) (a_now e) ?f ?s0)"
    using audio_tick_heartbeat[OF assms(1-6)] .
  have i0: "\<not> audio_recording ?s0" using assms(4) by simp
  note sr = start_result[OF i0, of e "a_sample_count e" "a_now e" ?f]
  have ok: "fst (start_audio_recording e (a_sample_count e) (a_now e) ?f ?s0)"
    using sr(1) assms(7) unfolding eq by simp
  have fpos: "0 < ?f" by (simp add: kAudioPrerollSamples_def AUDIO_SAMPLE_RATE_def AUDIO_PREROLL_MS_def)
  have ep: "audio_start_epoch (audio_tick e s) = adjust_start_epoch (a_now e)"
    unfolding eq using sr(2) ok by (simp split: if_splits)
  have fa: "audio_force_active (audio_tick e s)"
    unfolding eq using sr(2) ok fpos by simp
  have run: "clip_over (audio_tick e s) (record_ticks es (audio_tick e s))" for es
    using record_ticks_clip[OF assms(7)] .
  show ?thesis
    using ep fa adjust_start_epoch_value[of "a_now e"] run unfolding clip_over_def by auto
qed

text \<open>A heartbeat pending at epoch 1000 starts a recording with start epoch 999.\<close>

theorem heartbeat_epoch_adjusted_witness:
  "audio_ok demo_heartbeat \<and> a_i2s_ok (demo_frame 1000) \<and> 0 < a_sample_count (demo_frame 1000) \<and>
   \<not> audio_recording demo_heartbeat \<and> \<not> audio_photo_clip_pending demo_heartbeat \<and>
   audio_heartbeat_pending demo_heartbeat \<and> audio_recording (audio_tick (demo_frame 1000) demo_heartbeat) \<and>
   a_now (demo_frame 1000) = 1000 \<and>
   audio_start_epoch (audio_tick (demo_frame 1000) demo_heartbeat) = 999"
proof -
  have h1: "audio_ok demo_heartbeat" by (simp add: demo_heartbeat_def fw_init_def)
  have h2: "a_i2s_ok (demo_frame 1000)" by (simp add: demo_frame_def)
  have h3: "0 < a_sample_count (demo_frame 1000)" by (simp add: demo_frame_def)
  have h4: "\<not> audio_recording demo_heartbeat" by (simp add: demo_heartbeat_def fw_init_def)
  have h5: "\<not> audio_photo_clip_pending demo_heartbeat" by (simp add: demo_heartbeat_def fw_init_def)
  have h6: "audio_heartbeat_pending demo_heartbeat" by (simp add: demo_heartbeat_def fw_init_def)
  have h7: "audio_recording (audio_tick (demo_frame 1000) demo_heartbeat)"
    by (simp add: audio_defs demo_frame_def demo_heartbeat_def fw_init_def Let_def)
  have n: "a_now (demo_frame 1000) = 1000" by (simp add: demo_frame_def)
  have "audio_start_epoch (audio_tick (demo_frame 1000) demo_heartbeat) = 999"
    using heartbeat_epoch_adjusted[OF h1 h2 h3 h4 h5 h6 h7] n by simp
  then show ?thesis using h1 h2 h3 h4 h5 h6 h7 n by simp
qed

subsection \<open>Raising the flags of the forced clips\<close>

text \<open>
  C6 says that the heartbeat flag is raised only when audio is not recording and no photo
  clip is pending. The heartbeat block of \<^verbatim>\<open>loop\<close> tests \<^verbatim>\<open>audio_recording\<close> and
  \<^verbatim>\<open>audio_heartbeat_pending\<close>, not \<^verbatim>\<open>audio_photo_clip_pending\<close>. Here a turn of \<^verbatim>\<open>loop\<close>
  takes a photo, which raises the photo clip flag, and comes to the heartbeat block with
  that flag up; the heartbeat interval has passed and the heartbeat flag is raised too.
\<close>

theorem heartbeat_raised_with_photo_pending:
  "audio_flags demo_booted = (False, False, False) \<and>
   audio_flags (before_heartbeat demo_turn demo_booted) = (False, True, False) \<and>
   audio_flags (loop_heartbeat demo_turn (before_heartbeat demo_turn demo_booted)) = (False, True, True) \<and>
   audio_flags (loop demo_turn demo_booted) = (False, True, True)"
proof -
  have "audio_flags demo_booted = (False, False, False)"
    by (simp add: audio_flags_def demo_booted_def fw_init_def)
  then show ?thesis using demo_before_heartbeat demo_after_heartbeat
    by (simp add: loop_before_heartbeat)
qed

text \<open>
  C6, as the source has it. While audio is recording, \<^verbatim>\<open>capture_and_save\<close> leaves the photo
  clip flag and its epoch as they are. While audio is recording, or a heartbeat is already
  pending, the heartbeat block of \<^verbatim>\<open>loop\<close> changes nothing. And over a whole turn of \<^verbatim>\<open>loop\<close>, a
  photo clip flag or a heartbeat flag that is up at the end and was down at the start was
  raised with audio not recording, and audio is still not recording at the end of the turn.
\<close>

theorem flags_raised_when_idle:
  "(audio_recording s \<longrightarrow>
      audio_photo_clip_pending (snd (capture_and_save c s)) = audio_photo_clip_pending s \<and>
      audio_photo_clip_epoch (snd (capture_and_save c s)) = audio_photo_clip_epoch s) \<and>
   (audio_recording s \<or> audio_heartbeat_pending s \<longrightarrow> loop_heartbeat e s = s) \<and>
   (audio_photo_clip_pending (loop e s) \<and> \<not> audio_photo_clip_pending s \<longrightarrow>
      \<not> audio_recording (loop e s)) \<and>
   (audio_heartbeat_pending (loop e s) \<and> \<not> audio_heartbeat_pending s \<longrightarrow>
      \<not> audio_recording (loop e s))"
proof -
  let ?s1 = "audio_tick (l_audio e) s"
  let ?s3 = "loop_ntp e (loop_wifi e ?s1)"
  let ?s4 = "loop_capture e ?s3"
  let ?s5 = "loop_heartbeat e ?s4"
  have f3: "audio_flags ?s3 = audio_flags ?s1" by (simp add: loop_step_flags)
  have f8: "audio_flags (loop e s) = audio_flags ?s5" by (simp add: loop_def loop_step_flags)
  have rec: "audio_recording ?s5 = audio_recording ?s3"
    by (simp add: loop_heartbeat_flags loop_capture_flags)
  have p: "\<not> audio_recording (loop e s)"
    if "audio_photo_clip_pending (loop e s)" "\<not> audio_photo_clip_pending s"
  proof -
    have "audio_photo_clip_pending ?s4" using that(1) f8 by (simp add: audio_flags_def loop_heartbeat_flags)
    moreover have "\<not> audio_photo_clip_pending ?s3"
      using that(2) audio_tick_no_raise(1)[of "l_audio e" s] f3 by (simp add: audio_flags_def)
    ultimately have "\<not> audio_recording ?s3" using loop_capture_flags(3)[of e ?s3] by blast
    then show ?thesis using f8 rec by (simp add: audio_flags_def)
  qed
  have h: "\<not> audio_recording (loop e s)"
    if "audio_heartbeat_pending (loop e s)" "\<not> audio_heartbeat_pending s"
  proof -
    have "audio_heartbeat_pending ?s5" using that(1) f8 by (simp add: audio_flags_def)
    moreover have "\<not> audio_heartbeat_pending ?s4"
      using that(2) audio_tick_no_raise(2)[of "l_audio e" s] f3
      by (simp add: audio_flags_def loop_capture_flags)
    ultimately have "\<not> audio_recording ?s4" using loop_heartbeat_flags(3)[of e ?s4] by blast
    then show ?thesis using f8 by (simp add: audio_flags_def loop_heartbeat_flags)
  qed
  have hb: "audio_recording s \<or> audio_heartbeat_pending s \<longrightarrow> loop_heartbeat e s = s"
    by (auto simp: loop_heartbeat_def Let_def)
  show ?thesis using capture_photo_flag(2)[of s c] hb p h by blast
qed

text \<open>
  With audio recording, a photo is taken and the photo clip flag stays down, and the
  heartbeat block changes nothing. From the idle state the turn raises the heartbeat flag
  and audio is not recording at its end.
\<close>

theorem flags_raised_when_idle_witness:
  "audio_recording (demo_booted\<lparr>audio_recording := True\<rparr>) \<and>
   fst (capture_and_save (l_capture demo_turn) (demo_booted\<lparr>audio_recording := True\<rparr>)) \<and>
   \<not> audio_photo_clip_pending
       (snd (capture_and_save (l_capture demo_turn) (demo_booted\<lparr>audio_recording := True\<rparr>))) \<and>
   loop_heartbeat demo_turn (demo_booted\<lparr>audio_recording := True\<rparr>) =
     demo_booted\<lparr>audio_recording := True\<rparr> \<and>
   audio_heartbeat_pending (loop demo_turn demo_booted) \<and>
   \<not> audio_heartbeat_pending demo_booted \<and> \<not> audio_recording (loop demo_turn demo_booted)"
proof -
  let ?r = "demo_booted\<lparr>audio_recording := True\<rparr>"
  have h1: "audio_recording ?r" by simp
  have h2: "\<not> audio_heartbeat_pending demo_booted" by (simp add: demo_booted_def fw_init_def)
  have h3: "audio_heartbeat_pending (loop demo_turn demo_booted)"
    using demo_after_heartbeat loop_before_heartbeat[of demo_turn demo_booted]
    by (simp add: audio_flags_def)
  have c: "fst (capture_and_save (l_capture demo_turn) ?r)"
    by (simp add: capture_and_save_def get_next_seq_def demo_turn_def demo_booted_def
        fw_init_def Let_def)
  have d: "\<not> audio_photo_clip_pending (snd (capture_and_save (l_capture demo_turn) ?r))"
    using flags_raised_when_idle[of ?r "l_capture demo_turn" demo_turn] h1
    by (simp add: demo_booted_def fw_init_def)
  have a: "loop_heartbeat demo_turn ?r = ?r"
    using flags_raised_when_idle[of ?r "l_capture demo_turn" demo_turn] h1 by blast
  have b: "\<not> audio_recording (loop demo_turn demo_booted)"
    using flags_raised_when_idle[of demo_booted "l_capture demo_turn" demo_turn] h2 h3 by blast
  show ?thesis
  proof (intro conjI)
    show "audio_recording ?r" by (rule h1)
    show "fst (capture_and_save (l_capture demo_turn) ?r)" by (rule c)
    show "\<not> audio_photo_clip_pending (snd (capture_and_save (l_capture demo_turn) ?r))" by (rule d)
    show "loop_heartbeat demo_turn ?r = ?r" by (rule a)
    show "audio_heartbeat_pending (loop demo_turn demo_booted)" by (rule h3)
    show "\<not> audio_heartbeat_pending demo_booted" by (rule h2)
    show "\<not> audio_recording (loop demo_turn demo_booted)" by (rule b)
  qed
qed

end
